theory Spec2Isabelle
  imports Main
begin

section \<open>AdvancedParser (src/luaui.js): tokens, parser state, navigation\<close>

text \<open>
  A token is the object \<^verbatim>\<open>{type, value, line, column}\<close> built by the lexer's
  \<^verbatim>\<open>createToken\<close>. Token types are the strings of the \<^verbatim>\<open>TokenType\<close> table
  (\<^verbatim>\<open>TokenType.POWER === 'POWER'\<close>), so they are strings here as well. Numbers are
  restricted to integers.
\<close>

datatype tval = VStr string | VNum int | VBool bool | VNull

record token =
  ttype :: string
  tvalue :: tval
  tline :: nat
  tcolumn :: nat

text \<open>
  The \<^verbatim>\<open>Error\<close> objects thrown by the parser, one constructor per \<^verbatim>\<open>throw\<close> site of the
  modelled methods; the fields are the values interpolated into the message.
\<close>

datatype perror =
    ConsumeError string string nat nat
  | UnexpectedToken string nat
  | AwaitOutsideAsync
  | SuperOutsideClass

record pstate =
  tokens :: "token list"
  current :: nat
  errors :: "perror list"
  scope_async :: bool
  scope_inClass :: bool
  allowAwaitOutsideFunction :: bool
  allowImportExportEverywhere :: bool
  allowHashBang :: bool
  sourceType :: string

datatype ast =
    Literal tval
  | RegexLiteral tval
  | Identifier string
  | Super
  | AssignmentExpression string ast ast
  | ConditionalExpression ast ast ast
  | LogicalExpression string ast ast
  | BinaryExpression string ast ast
  | UnaryExpression string ast
  | UpdateExpression string ast bool
  | AwaitExpression ast
  | MemberExpression ast ast bool bool
  | CallExpression ast "ast list" bool
  | SpreadElement ast
  | NewExpression ast "ast list"
  | VariableDeclaration "(string \<times> ast option) list" string
  | ExpressionStatement ast

text \<open>
  The outcome of a parser method: a node and the state after it, a thrown error and the
  state at the throw, the end of the recursion budget of the model, or a construct of
  the grammar that lies outside the modelled methods (named by the method not modelled).
\<close>

datatype 'a pres =
    POk 'a pstate
  | PErr perror pstate
  | PFuel
  | PUnmodelled string

definition peek_at :: "pstate \<Rightarrow> nat \<Rightarrow> token" where
  "peek_at st off =
     (let index = current st + off
      in if index < length (tokens st) then tokens st ! index else last (tokens st))"

definition peek :: "pstate \<Rightarrow> token" where
  "peek st = peek_at st 0"

definition isAtEnd :: "pstate \<Rightarrow> bool" where
  "isAtEnd st = (ttype (peek st) = ''EOF'')"

definition previous :: "pstate \<Rightarrow> token" where
  "previous st = tokens st ! (current st - 1)"

definition advance :: "pstate \<Rightarrow> pstate" where
  "advance st = (if \<not> isAtEnd st then st\<lparr>current := current st + 1\<rparr> else st)"

definition check :: "pstate \<Rightarrow> string \<Rightarrow> bool" where
  "check st t = (if isAtEnd st then False else ttype (peek st) = t)"

fun match_tok :: "pstate \<Rightarrow> string list \<Rightarrow> bool \<times> pstate" where
  "match_tok st [] = (False, st)"
| "match_tok st (t # ts) = (if check st t then (True, advance st) else match_tok st ts)"

definition consume :: "pstate \<Rightarrow> string \<Rightarrow> string \<Rightarrow> token pres" where
  "consume st t message =
     (if check st t then POk (previous (advance st)) (advance st)
      else let cur = peek st;
               error = ConsumeError message (ttype cur) (tline cur) (tcolumn cur)
           in PErr error (st\<lparr>errors := errors st @ [error]\<rparr>))"

fun str_of :: "tval \<Rightarrow> string" where
  "str_of (VStr s) = s"
| "str_of _ = []"

section \<open>AdvancedParser: the expression grammar\<close>

text \<open>
  One level per method of the precedence chain, \<^verbatim>\<open>assignmentExpression\<close> down to
  \<^verbatim>\<open>primaryExpression\<close>. The methods call each other recursively. Each method is a
  definition of its own that reaches the other methods through its first argument
  \<open>rec\<close>; \<open>parse_call\<close> below closes the recursion, with a bound on the depth of the
  call stack.
\<close>

datatype level =
    AssignmentL | ConditionalL | LogicalOrL | LogicalAndL | BitwiseOrL | BitwiseXorL
  | BitwiseAndL | EqualityL | RelationalL | ShiftL | AdditiveL | MultiplicativeL
  | ExponentiationL | UnaryL | PostfixL | CallL | MemberL | PrimaryL

text \<open>
  The ten left-associative methods (\<^verbatim>\<open>logicalOrExpression\<close> to
  \<^verbatim>\<open>multiplicativeExpression\<close>) share one shape: parse an operand with the next method,
  then, while one of the method's operator tokens matches, parse another operand and
  build a node. The tables give, per method, the operator tokens, the operand method,
  the operator rewriting and the node built.
\<close>

fun level_ops :: "level \<Rightarrow> string list" where
  "level_ops LogicalOrL = [''LOGICAL_OR'', ''OR'']"
| "level_ops LogicalAndL = [''LOGICAL_AND'', ''AND'']"
| "level_ops BitwiseOrL = [''BITWISE_OR'']"
| "level_ops BitwiseXorL = [''BITWISE_XOR'']"
| "level_ops BitwiseAndL = [''BITWISE_AND'']"
| "level_ops EqualityL = [''EQUAL'', ''NOT_EQUAL'', ''STRICT_EQUAL'', ''STRICT_NOT_EQUAL'']"
| "level_ops RelationalL = [''LESS_THAN'', ''LESS_EQUAL'', ''GREATER_THAN'', ''GREATER_EQUAL'']"
| "level_ops ShiftL = [''LEFT_SHIFT'', ''RIGHT_SHIFT'', ''UNSIGNED_RIGHT_SHIFT'']"
| "level_ops AdditiveL = [''PLUS'', ''MINUS'']"
| "level_ops MultiplicativeL = [''MULTIPLY'', ''DIVIDE'', ''MODULO'']"
| "level_ops _ = []"

fun operand_level :: "level \<Rightarrow> level" where
  "operand_level LogicalOrL = LogicalAndL"
| "operand_level LogicalAndL = BitwiseOrL"
| "operand_level BitwiseOrL = BitwiseXorL"
| "operand_level BitwiseXorL = BitwiseAndL"
| "operand_level BitwiseAndL = EqualityL"
| "operand_level EqualityL = RelationalL"
| "operand_level RelationalL = ShiftL"
| "operand_level ShiftL = AdditiveL"
| "operand_level AdditiveL = MultiplicativeL"
| "operand_level MultiplicativeL = ExponentiationL"
| "operand_level l = l"

fun level_operator :: "level \<Rightarrow> string \<Rightarrow> string" where
  "level_operator LogicalOrL v = (if v = ''or'' then ''||'' else v)"
| "level_operator LogicalAndL v = (if v = ''and'' then ''&&'' else v)"
| "level_operator EqualityL v = (if v = ''~='' then ''!='' else v)"
| "level_operator _ v = v"

fun level_node :: "level \<Rightarrow> string \<Rightarrow> ast \<Rightarrow> ast \<Rightarrow> ast" where
  "level_node LogicalOrL operator l r = LogicalExpression operator l r"
| "level_node LogicalAndL operator l r = LogicalExpression operator l r"
| "level_node _ operator l r = BinaryExpression operator l r"

definition assign_ops :: "string list" where
  "assign_ops = [''ASSIGN'', ''PLUS_ASSIGN'', ''MINUS_ASSIGN'', ''MULTIPLY_ASSIGN'',
                 ''DIVIDE_ASSIGN'', ''MODULO_ASSIGN'', ''POWER_ASSIGN'']"

definition unary_ops :: "string list" where
  "unary_ops = [''NOT'', ''MINUS'', ''PLUS'', ''BITWISE_NOT'', ''INCREMENT'', ''DECREMENT'']"

fun pbind :: "'a pres \<Rightarrow> ('a \<Rightarrow> pstate \<Rightarrow> 'b pres) \<Rightarrow> 'b pres" where
  "pbind (POk a s) f = f a s"
| "pbind (PErr e s) f = PErr e s"
| "pbind PFuel f = PFuel"
| "pbind (PUnmodelled m) f = PUnmodelled m"

text \<open>A call of one method of the chain, or of the loop of a method, at a parser state.\<close>

datatype call =
    Expr level pstate
  | BinaryLoop level ast pstate
  | CallLoop ast pstate

definition assignmentExpression :: "(call \<Rightarrow> ast pres) \<Rightarrow> pstate \<Rightarrow> ast pres" where
  "assignmentExpression rec st =
     pbind (rec (Expr ConditionalL st)) (\<lambda>expr st1.
       case match_tok st1 assign_ops of
         (True, st2) \<Rightarrow>
           (let operator = str_of (tvalue (previous st2))
            in pbind (rec (Expr AssignmentL st2)) (\<lambda>right st3.
                 POk (AssignmentExpression operator expr right) st3))
       | (False, _) \<Rightarrow> POk expr st1)"

definition conditionalExpression :: "(call \<Rightarrow> ast pres) \<Rightarrow> pstate \<Rightarrow> ast pres" where
  "conditionalExpression rec st =
     pbind (rec (Expr LogicalOrL st)) (\<lambda>expr st1.
       case match_tok st1 [''QUESTION''] of
         (True, st2) \<Rightarrow>
           pbind (rec (Expr AssignmentL st2)) (\<lambda>consequent st3.
           pbind (consume st3 ''COLON'' ''Expected ':' after '?' in ternary expression'') (\<lambda>_ st4.
           pbind (rec (Expr ConditionalL st4)) (\<lambda>alternate st5.
             POk (ConditionalExpression expr consequent alternate) st5)))
       | (False, _) \<Rightarrow> POk expr st1)"

text \<open>
  \<^verbatim>\<open>logicalOrExpression\<close> ... \<^verbatim>\<open>multiplicativeExpression\<close>: the first operand, then the
  \<^verbatim>\<open>while (this.match(...))\<close> loop.
\<close>

definition binaryExpression :: "(call \<Rightarrow> ast pres) \<Rightarrow> level \<Rightarrow> pstate \<Rightarrow> ast pres" where
  "binaryExpression rec l st =
     pbind (rec (Expr (operand_level l) st)) (\<lambda>expr st1. rec (BinaryLoop l expr st1))"

definition binaryLoop :: "(call \<Rightarrow> ast pres) \<Rightarrow> level \<Rightarrow> ast \<Rightarrow> pstate \<Rightarrow> ast pres" where
  "binaryLoop rec l expr st =
     (case match_tok st (level_ops l) of
        (True, st1) \<Rightarrow>
          (let operator = level_operator l (str_of (tvalue (previous st1)))
           in pbind (rec (Expr (operand_level l) st1)) (\<lambda>right st2.
                rec (BinaryLoop l (level_node l operator expr right) st2)))
      | (False, _) \<Rightarrow> POk expr st)"

definition exponentiationExpression :: "(call \<Rightarrow> ast pres) \<Rightarrow> pstate \<Rightarrow> ast pres" where
  "exponentiationExpression rec st =
     pbind (rec (Expr UnaryL st)) (\<lambda>expr st1.
       case match_tok st1 [''POWER''] of
         (True, st2) \<Rightarrow>
           (let operator = (if str_of (tvalue (previous st2)) = ''^'' then ''**''
                            else str_of (tvalue (previous st2)))
            in pbind (rec (Expr ExponentiationL st2)) (\<lambda>right st3.
                 POk (BinaryExpression operator expr right) st3))
       | (False, _) \<Rightarrow> POk expr st1)"

definition unaryExpression :: "(call \<Rightarrow> ast pres) \<Rightarrow> pstate \<Rightarrow> ast pres" where
  "unaryExpression rec st =
     (case match_tok st unary_ops of
        (True, st1) \<Rightarrow>
          (let operator = (if str_of (tvalue (previous st1)) = ''not'' then ''!''
                           else str_of (tvalue (previous st1)))
           in pbind (rec (Expr UnaryL st1)) (\<lambda>argument st2.
                if operator = ''++'' \<or> operator = ''--''
                then POk (UpdateExpression operator argument True) st2
                else POk (UnaryExpression operator argument) st2))
      | (False, _) \<Rightarrow>
          (case match_tok st [''AWAIT''] of
             (True, st1) \<Rightarrow>
               (if \<not> scope_async st1 \<and> \<not> allowAwaitOutsideFunction st1
                then PErr AwaitOutsideAsync st1
                else pbind (rec (Expr UnaryL st1)) (\<lambda>argument st2.
                       POk (AwaitExpression argument) st2))
           | (False, _) \<Rightarrow> rec (Expr PostfixL st)))"

definition postfixExpression :: "(call \<Rightarrow> ast pres) \<Rightarrow> pstate \<Rightarrow> ast pres" where
  "postfixExpression rec st =
     pbind (rec (Expr CallL st)) (\<lambda>expr st1.
       case match_tok st1 [''INCREMENT'', ''DECREMENT''] of
         (True, st2) \<Rightarrow> POk (UpdateExpression (str_of (tvalue (previous st2))) expr False) st2
       | (False, _) \<Rightarrow> POk expr st1)"

text \<open>
  The \<^verbatim>\<open>do { ... } while (this.match(TokenType.COMMA))\<close> loops that collect arguments. Every
  round consumes a token, so the number of rounds is bounded by the number of tokens;
  \<open>k\<close> counts the rounds left. The flag says whether a leading \<^verbatim>\<open>...\<close> is accepted
  (\<^verbatim>\<open>finishCall\<close>) or not (\<^verbatim>\<open>new\<close>).
\<close>

primrec arguments_loop ::
  "(call \<Rightarrow> ast pres) \<Rightarrow> bool \<Rightarrow> nat \<Rightarrow> ast list \<Rightarrow> pstate \<Rightarrow> (ast list) pres" where
  "arguments_loop rec spread 0 args st = PFuel"
| "arguments_loop rec spread (Suc k) args st =
     (case (if spread then match_tok st [''SPREAD''] else (False, st)) of
        (True, st1) \<Rightarrow>
          pbind (rec (Expr AssignmentL st1)) (\<lambda>argument st2.
            case match_tok st2 [''COMMA''] of
              (True, st3) \<Rightarrow> arguments_loop rec spread k (args @ [SpreadElement argument]) st3
            | (False, _) \<Rightarrow> POk (args @ [SpreadElement argument]) st2)
      | (False, _) \<Rightarrow>
          pbind (rec (Expr AssignmentL st)) (\<lambda>argument st2.
            case match_tok st2 [''COMMA''] of
              (True, st3) \<Rightarrow> arguments_loop rec spread k (args @ [argument]) st3
            | (False, _) \<Rightarrow> POk (args @ [argument]) st2))"

definition finishCall :: "(call \<Rightarrow> ast pres) \<Rightarrow> ast \<Rightarrow> bool \<Rightarrow> pstate \<Rightarrow> ast pres" where
  "finishCall rec callee optional st =
     pbind (if \<not> check st ''RIGHT_PAREN''
            then arguments_loop rec True (length (tokens st)) [] st
            else POk [] st) (\<lambda>args st1.
     pbind (consume st1 ''RIGHT_PAREN'' ''Expected ')' after arguments'') (\<lambda>_ st2.
       POk (CallExpression callee args optional) st2))"

definition callExpression :: "(call \<Rightarrow> ast pres) \<Rightarrow> pstate \<Rightarrow> ast pres" where
  "callExpression rec st = pbind (rec (Expr MemberL st)) (\<lambda>expr st1. rec (CallLoop expr st1))"

text \<open>One round of the \<^verbatim>\<open>while (true)\<close> loop of \<^verbatim>\<open>callExpression\<close>.\<close>

definition callLoop :: "(call \<Rightarrow> ast pres) \<Rightarrow> ast \<Rightarrow> pstate \<Rightarrow> ast pres" where
  "callLoop rec expr st =
     (case match_tok st [''LEFT_PAREN''] of
        (True, st1) \<Rightarrow> pbind (finishCall rec expr False st1) (\<lambda>e st2. rec (CallLoop e st2))
      | (False, _) \<Rightarrow>
     (case match_tok st [''LEFT_BRACKET''] of
        (True, st1) \<Rightarrow>
          pbind (rec (Expr AssignmentL st1)) (\<lambda>property st2.
          pbind (consume st2 ''RIGHT_BRACKET'' ''Expected ']' after computed property'') (\<lambda>_ st3.
            rec (CallLoop (MemberExpression expr property True False) st3)))
      | (False, _) \<Rightarrow>
     (case match_tok st [''DOT''] of
        (True, st1) \<Rightarrow>
          pbind (consume st1 ''IDENTIFIER'' (''Expected property name after '.'' @ [CHR 0x27]))
            (\<lambda>property st2.
               rec (CallLoop (MemberExpression expr (Identifier (str_of (tvalue property)))
                                False False) st2))
      | (False, _) \<Rightarrow>
     (case match_tok st [''OPTIONAL_CHAINING''] of
        (True, st1) \<Rightarrow>
          (if check st1 ''LEFT_BRACKET''
           then pbind (rec (Expr AssignmentL (advance st1))) (\<lambda>property st2.
                pbind (consume st2 ''RIGHT_BRACKET'' ''Expected ']' after computed property'')
                  (\<lambda>_ st3. rec (CallLoop (MemberExpression expr property True True) st3)))
           else if check st1 ''IDENTIFIER''
           then (let st2 = advance st1
                 in rec (CallLoop (MemberExpression expr
                                     (Identifier (str_of (tvalue (previous st2)))) False True) st2))
           else if check st1 ''LEFT_PAREN''
           then pbind (finishCall rec expr True st1) (\<lambda>e st2. rec (CallLoop e st2))
           else rec (CallLoop expr st1))
      | (False, _) \<Rightarrow> POk expr st))))"

definition memberExpression :: "(call \<Rightarrow> ast pres) \<Rightarrow> pstate \<Rightarrow> ast pres" where
  "memberExpression rec st =
     (case match_tok st [''NEW''] of
        (True, st1) \<Rightarrow>
          pbind (rec (Expr MemberL st1)) (\<lambda>callee st2.
            if check st2 ''LEFT_PAREN''
            then (let st3 = advance st2
                  in pbind (if \<not> check st3 ''RIGHT_PAREN''
                            then arguments_loop rec False (length (tokens st3)) [] st3
                            else POk [] st3) (\<lambda>args st4.
                     pbind (consume st4 ''RIGHT_PAREN'' ''Expected ')' after arguments'') (\<lambda>_ st5.
                       POk (NewExpression callee args) st5)))
            else POk (NewExpression callee []) st2)
      | (False, _) \<Rightarrow> rec (Expr PrimaryL st))"

definition primaryExpression :: "(call \<Rightarrow> ast pres) \<Rightarrow> pstate \<Rightarrow> ast pres" where
  "primaryExpression rec st =
     (case match_tok st [''BOOLEAN'', ''NIL'', ''NUMBER'', ''STRING''] of
        (True, st1) \<Rightarrow> POk (Literal (tvalue (previous st1))) st1
      | (False, _) \<Rightarrow>
     (case match_tok st [''TEMPLATE_LITERAL''] of
        (True, st1) \<Rightarrow> PUnmodelled ''templateLiteral''
      | (False, _) \<Rightarrow>
     (case match_tok st [''REGEX''] of
        (True, st1) \<Rightarrow> POk (RegexLiteral (tvalue (previous st1))) st1
      | (False, _) \<Rightarrow>
     (case match_tok st [''IDENTIFIER''] of
        (True, st1) \<Rightarrow> POk (Identifier (str_of (tvalue (previous st1)))) st1
      | (False, _) \<Rightarrow>
     (case match_tok st [''SUPER''] of
        (True, st1) \<Rightarrow>
          (if \<not> scope_inClass st1 then PErr SuperOutsideClass st1 else POk Super st1)
      | (False, _) \<Rightarrow>
     (case match_tok st [''THIS''] of
        (True, st1) \<Rightarrow> POk (Identifier ''this'') st1
      | (False, _) \<Rightarrow>
     (case match_tok st [''LEFT_PAREN''] of
        (True, st1) \<Rightarrow>
          pbind (rec (Expr AssignmentL st1)) (\<lambda>expr st2.
          pbind (consume st2 ''RIGHT_PAREN'' ''Expected ')' after expression'') (\<lambda>_ st3.
            POk expr st3))
      | (False, _) \<Rightarrow>
     (case match_tok st [''LEFT_BRACKET''] of
        (True, st1) \<Rightarrow> PUnmodelled ''arrayExpression''
      | (False, _) \<Rightarrow>
     (case match_tok st [''LEFT_BRACE''] of
        (True, st1) \<Rightarrow> PUnmodelled ''objectExpression''
      | (False, _) \<Rightarrow>
     (case match_tok st [''FUNCTION''] of
        (True, st1) \<Rightarrow> PUnmodelled ''functionExpression''
      | (False, _) \<Rightarrow>
     (if check st ''IDENTIFIER'' \<and> ttype (peek_at st 1) = ''ARROW''
      then PUnmodelled ''arrowFunctionExpression''
      else
     (case match_tok st [''CLASS''] of
        (True, st1) \<Rightarrow> PUnmodelled ''classExpression''
      | (False, _) \<Rightarrow>
          PErr (UnexpectedToken (ttype (peek st)) (tline (peek st))) st))))))))))))"

fun dispatch :: "(call \<Rightarrow> ast pres) \<Rightarrow> call \<Rightarrow> ast pres" where
  "dispatch rec (Expr AssignmentL st) = assignmentExpression rec st"
| "dispatch rec (Expr ConditionalL st) = conditionalExpression rec st"
| "dispatch rec (Expr ExponentiationL st) = exponentiationExpression rec st"
| "dispatch rec (Expr UnaryL st) = unaryExpression rec st"
| "dispatch rec (Expr PostfixL st) = postfixExpression rec st"
| "dispatch rec (Expr CallL st) = callExpression rec st"
| "dispatch rec (Expr MemberL st) = memberExpression rec st"
| "dispatch rec (Expr PrimaryL st) = primaryExpression rec st"
| "dispatch rec (Expr l st) = binaryExpression rec l st"
| "dispatch rec (BinaryLoop l expr st) = binaryLoop rec l expr st"
| "dispatch rec (CallLoop expr st) = callLoop rec expr st"

primrec parse_call :: "nat \<Rightarrow> call \<Rightarrow> ast pres" where
  "parse_call 0 c = PFuel"
| "parse_call (Suc n) c = dispatch (parse_call n) c"

definition expression :: "nat \<Rightarrow> pstate \<Rightarrow> ast pres" where
  "expression n st = parse_call n (Expr AssignmentL st)"

fun result_node :: "'a pres \<Rightarrow> 'a option" where
  "result_node (POk a st) = Some a"
| "result_node _ = None"

section \<open>AdvancedParser: statements, error recovery and the program loop\<close>




















text \<open>The parser as its constructor leaves it: default options, global scope.\<close>

definition new_parser :: "token list \<Rightarrow> pstate" where
  "new_parser ts =
     \<lparr>tokens = ts, current = 0, errors = [], scope_async = False, scope_inClass = False,
      allowAwaitOutsideFunction = False, allowImportExportEverywhere = False,
      allowHashBang = False, sourceType = ''script''\<rparr>"

definition tok :: "string \<Rightarrow> tval \<Rightarrow> nat \<Rightarrow> token" where
  "tok t v c = \<lparr>ttype = t, tvalue = v, tline = 1, tcolumn = c\<rparr>"

text \<open>
  The token lists the lexer produces for the one-line sources \<^verbatim>\<open>-2^2\<close>, \<^verbatim>\<open>2^3^2\<close>,
  \<^verbatim>\<open>2**3**2\<close> and \<^verbatim>\<open>local x = ; local y = 2\<close> (whitespace is skipped; the \<^verbatim>\<open>EOF\<close> token
  carries the value \<^verbatim>\<open>null\<close>).
\<close>

definition tokens_neg_pow :: "token list" where
  "tokens_neg_pow =
     [tok ''MINUS'' (VStr ''-'') 1, tok ''NUMBER'' (VNum 2) 2, tok ''POWER'' (VStr ''^'') 3,
      tok ''NUMBER'' (VNum 2) 4, tok ''EOF'' VNull 5]"

definition tokens_pow_chain :: "token list" where
  "tokens_pow_chain =
     [tok ''NUMBER'' (VNum 2) 1, tok ''POWER'' (VStr ''^'') 2, tok ''NUMBER'' (VNum 3) 3,
      tok ''POWER'' (VStr ''^'') 4, tok ''NUMBER'' (VNum 2) 5, tok ''EOF'' VNull 6]"

definition tokens_starstar_chain :: "token list" where
  "tokens_starstar_chain =
     [tok ''NUMBER'' (VNum 2) 1, tok ''POWER'' (VStr ''**'') 2, tok ''NUMBER'' (VNum 3) 4,
      tok ''POWER'' (VStr ''**'') 5, tok ''NUMBER'' (VNum 2) 7, tok ''EOF'' VNull 8]"




section \<open>Compiler (older source version): from the AST to JavaScript text\<close>

text \<open>
  The nodes the older \<^verbatim>\<open>Parser\<close> builds for expressions and for the statements other than
  component and function declarations; \<^verbatim>\<open>TableConstructor\<close> and \<^verbatim>\<open>FunctionExpression\<close> are
  left out. Literal values reuse the token values (number, string, boolean, \<^verbatim>\<open>null\<close>).
\<close>

datatype lexpr =
    ELiteral tval
  | EIdentifier string
  | EBinary lexpr string lexpr
  | EUnary string lexpr
  | EAssignment lexpr lexpr
  | ECall lexpr "lexpr list"
  | EMember lexpr string
  | EIndex lexpr lexpr

datatype lstmt =
    SLocalDeclaration string "lexpr option"
  | SIf lexpr "lstmt list" "(lexpr \<times> lstmt list) list" "lstmt list option"
  | SNumericFor string lexpr lexpr "lexpr option" "lstmt list"
  | SGenericFor string lexpr "lstmt list"
  | SWhile lexpr "lstmt list"
  | SRepeat "lstmt list" lexpr
  | SReturn "lexpr option"
  | SBreak
  | SExpression lexpr

definition nl :: string where
  "nl = [CHR 0x0A]"

fun join :: "string \<Rightarrow> string list \<Rightarrow> string" where
  "join sep [] = []"
| "join sep [x] = x"
| "join sep (x # y # ys) = x @ sep @ join sep (y # ys)"

text \<open>\<^verbatim>\<open>String(n)\<close> for an integer \<open>n\<close>: its decimal digits, with a minus sign when negative.\<close>

function show_nat :: "nat \<Rightarrow> string" where
  "show_nat n =
     (if n < 10 then [char_of (48 + n)] else show_nat (n div 10) @ [char_of (48 + n mod 10)])"
  by pat_completeness auto
termination
  by (relation "measure id") auto

definition show_int :: "int \<Rightarrow> string" where
  "show_int i = (if i < 0 then CHR ''-'' # show_nat (nat (- i)) else show_nat (nat i))"

text \<open>\<^verbatim>\<open>value.replace(/"/g, '\\"')\<close>\<close>

fun escape_quotes :: "string \<Rightarrow> string" where
  "escape_quotes [] = []"
| "escape_quotes (c # cs) =
     (if c = CHR 0x22 then CHR 0x5C # CHR 0x22 # escape_quotes cs else c # escape_quotes cs)"

fun compileLiteral :: "tval \<Rightarrow> string" where
  "compileLiteral (VStr s) = [CHR 0x22] @ escape_quotes s @ [CHR 0x22]"
| "compileLiteral (VNum i) = show_int i"
| "compileLiteral (VBool b) = (if b then ''true'' else ''false'')"
| "compileLiteral VNull = ''null''"

definition builtin_tags :: "string list" where
  "builtin_tags =
     [''div'', ''span'', ''p'', ''h1'', ''h2'', ''h3'', ''h4'', ''h5'', ''h6'', ''button'',
      ''input'', ''textarea'', ''select'', ''option'', ''img'', ''a'', ''ul'', ''ol'', ''li'',
      ''table'', ''tr'', ''td'', ''th'', ''thead'', ''tbody'', ''form'', ''label'', ''br'',
      ''hr'', ''canvas'', ''svg'', ''audio'', ''video'']"

definition compileIdentifier :: "string \<Rightarrow> string" where
  "compileIdentifier name =
     (if name \<in> set builtin_tags
      then ''(function(props, ...children) { return h('' @ [CHR 0x27] @ name @ [CHR 0x27]
           @ '', props || {}, children.flat()); })''
      else if name = ''state'' then ''this.state''
      else if name = ''props'' then ''this.props''
      else if name = ''setState'' then ''this.setState''
      else name)"

fun compileExpression :: "lexpr \<Rightarrow> string" where
  "compileExpression (ELiteral v) = compileLiteral v"
| "compileExpression (EIdentifier name) = compileIdentifier name"
| "compileExpression (EBinary l operator r) =
     (let left = compileExpression l; right = compileExpression r
      in if operator = ''..'' then ''String('' @ left @ '') + String('' @ right @ '')''
         else if operator = ''=='' then ''('' @ left @ '' === '' @ right @ '')''
         else if operator = ''~='' \<or> operator = ''!='' then ''('' @ left @ '' !== '' @ right @ '')''
         else ''('' @ left @ '' '' @ operator @ '' '' @ right @ '')'')"
| "compileExpression (EUnary operator e) =
     (let operand = compileExpression e
      in if operator = ''not'' then ''!('' @ operand @ '')''
         else operator @ ''('' @ operand @ '')'')"
| "compileExpression (EAssignment l r) = compileExpression l @ '' = '' @ compileExpression r"
| "compileExpression (ECall callee args) =
     compileExpression callee @ ''('' @ join '', '' (map compileExpression args) @ '')''"
| "compileExpression (EMember object property) = compileExpression object @ ''.'' @ property"
| "compileExpression (EIndex object property) =
     compileExpression object @ ''['' @ compileExpression property @ '']''"

fun compileStatement :: "lstmt \<Rightarrow> string" where
  "compileStatement (SLocalDeclaration name init) =
     ''let '' @ name @ '' = ''
       @ (case init of None \<Rightarrow> ''undefined'' | Some e \<Rightarrow> compileExpression e) @ '';''"
| "compileStatement (SIf condition thenBranch elseIfBranches elseBranch) =
     ''if ('' @ compileExpression condition @ '') {'' @ nl
       @ join nl (map compileStatement thenBranch) @ nl @ ''}''
       @ concat (map (\<lambda>(c, b). '' else if ('' @ compileExpression c @ '') {'' @ nl
                                   @ join nl (map compileStatement b) @ nl @ ''}'') elseIfBranches)
       @ (case elseBranch of
            None \<Rightarrow> []
          | Some b \<Rightarrow> '' else {'' @ nl @ join nl (map compileStatement b) @ nl @ ''}'')"
| \<comment> \<open>\<^verbatim>\<open>compileForStatement\<close>, numeric form\<close>
  "compileStatement (SNumericFor variable start end step body) =
     nl @ ''for (let '' @ variable @ '' = '' @ compileExpression start @ ''; '' @ nl
       @ ''     '' @ variable @ '' <= '' @ compileExpression end @ ''; '' @ nl
       @ ''     '' @ variable @ '' += ''
       @ (case step of None \<Rightarrow> ''1'' | Some e \<Rightarrow> compileExpression e) @ '') {'' @ nl
       @ ''    '' @ join nl (map compileStatement body) @ nl
       @ ''}'' @ nl"
| \<comment> \<open>\<^verbatim>\<open>compileForStatement\<close>, generic form\<close>
  "compileStatement (SGenericFor variable iterable body) =
     nl @ ''for (const '' @ variable @ '' of '' @ compileExpression iterable @ '') {'' @ nl
       @ ''    '' @ join nl (map compileStatement body) @ nl
       @ ''}'' @ nl"
| "compileStatement (SWhile condition body) =
     nl @ ''while ('' @ compileExpression condition @ '') {'' @ nl
       @ ''    '' @ join nl (map compileStatement body) @ nl
       @ ''}'' @ nl"
| "compileStatement (SRepeat body condition) =
     nl @ ''do {'' @ nl
       @ ''    '' @ join nl (map compileStatement body) @ nl
       @ ''} while (!('' @ compileExpression condition @ ''));'' @ nl"
| "compileStatement (SReturn v) =
     ''return '' @ (case v of None \<Rightarrow> [] | Some e \<Rightarrow> compileExpression e) @ '';''"
| "compileStatement SBreak = ''break;''"
| "compileStatement (SExpression e) = compileExpression e @ '';''"

section \<open>The compiled program as a JavaScript syntax tree, and its execution\<close>

text \<open>
  The text that \<^verbatim>\<open>compileStatement\<close> emits is JavaScript. \<open>jexpr\<close> and \<open>jstmt\<close> are the
  syntax trees of the emitted forms, \<open>print_expr\<close> and \<open>print_stmt\<close> write a tree as the
  compiler's text, and \<open>tr_expr\<close> and \<open>tr_stmt\<close> give the tree of the text compiled from a
  node. \<open>JFor v init bound step body\<close> is the three-part loop
  \<^verbatim>\<open>for (let v = init; v <= bound; v += step) { body }\<close>.
\<close>

datatype jexpr =
    JNum int
  | JStr string
  | JBool bool
  | JNull
  | JThis
  | JName string
  | JTagBuilder string
  | JConcat jexpr jexpr
  | JBin string jexpr jexpr
  | JNot jexpr
  | JPrefix string jexpr
  | JAssign jexpr jexpr
  | JCall jexpr "jexpr list"
  | JMember jexpr string
  | JIndex jexpr jexpr

datatype jstmt =
    JLet string jexpr
  | JIf jexpr "jstmt list" "(jexpr \<times> jstmt list) list" "jstmt list option"
  | JFor string jexpr jexpr jexpr "jstmt list"
  | JForOf string jexpr "jstmt list"
  | JWhile jexpr "jstmt list"
  | JDoWhileNot "jstmt list" jexpr
  | JReturn "jexpr option"
  | JBreak
  | JExprStmt jexpr

fun print_expr :: "jexpr \<Rightarrow> string" where
  "print_expr (JNum i) = show_int i"
| "print_expr (JStr s) = [CHR 0x22] @ escape_quotes s @ [CHR 0x22]"
| "print_expr (JBool b) = (if b then ''true'' else ''false'')"
| "print_expr JNull = ''null''"
| "print_expr JThis = ''this''"
| "print_expr (JName x) = x"
| "print_expr (JTagBuilder t) =
     ''(function(props, ...children) { return h('' @ [CHR 0x27] @ t @ [CHR 0x27]
       @ '', props || {}, children.flat()); })''"
| "print_expr (JConcat l r) = ''String('' @ print_expr l @ '') + String('' @ print_expr r @ '')''"
| "print_expr (JBin operator l r) =
     ''('' @ print_expr l @ '' '' @ operator @ '' '' @ print_expr r @ '')''"
| "print_expr (JNot e) = ''!('' @ print_expr e @ '')''"
| "print_expr (JPrefix operator e) = operator @ ''('' @ print_expr e @ '')''"
| "print_expr (JAssign l r) = print_expr l @ '' = '' @ print_expr r"
| "print_expr (JCall f args) = print_expr f @ ''('' @ join '', '' (map print_expr args) @ '')''"
| "print_expr (JMember e p) = print_expr e @ ''.'' @ p"
| "print_expr (JIndex e p) = print_expr e @ ''['' @ print_expr p @ '']''"

fun print_stmt :: "jstmt \<Rightarrow> string" where
  "print_stmt (JLet x e) = ''let '' @ x @ '' = '' @ print_expr e @ '';''"
| "print_stmt (JIf c t eis e) =
     ''if ('' @ print_expr c @ '') {'' @ nl @ join nl (map print_stmt t) @ nl @ ''}''
       @ concat (map (\<lambda>(c, b). '' else if ('' @ print_expr c @ '') {'' @ nl
                                   @ join nl (map print_stmt b) @ nl @ ''}'') eis)
       @ (case e of
            None \<Rightarrow> []
          | Some b \<Rightarrow> '' else {'' @ nl @ join nl (map print_stmt b) @ nl @ ''}'')"
| "print_stmt (JFor v init bound step body) =
     nl @ ''for (let '' @ v @ '' = '' @ print_expr init @ ''; '' @ nl
       @ ''     '' @ v @ '' <= '' @ print_expr bound @ ''; '' @ nl
       @ ''     '' @ v @ '' += '' @ print_expr step @ '') {'' @ nl
       @ ''    '' @ join nl (map print_stmt body) @ nl
       @ ''}'' @ nl"
| "print_stmt (JForOf v e body) =
     nl @ ''for (const '' @ v @ '' of '' @ print_expr e @ '') {'' @ nl
       @ ''    '' @ join nl (map print_stmt body) @ nl
       @ ''}'' @ nl"
| "print_stmt (JWhile c body) =
     nl @ ''while ('' @ print_expr c @ '') {'' @ nl
       @ ''    '' @ join nl (map print_stmt body) @ nl
       @ ''}'' @ nl"
| "print_stmt (JDoWhileNot body c) =
     nl @ ''do {'' @ nl
       @ ''    '' @ join nl (map print_stmt body) @ nl
       @ ''} while (!('' @ print_expr c @ ''));'' @ nl"
| "print_stmt (JReturn v) = ''return '' @ (case v of None \<Rightarrow> [] | Some e \<Rightarrow> print_expr e) @ '';''"
| "print_stmt JBreak = ''break;''"
| "print_stmt (JExprStmt e) = print_expr e @ '';''"

fun tr_literal :: "tval \<Rightarrow> jexpr" where
  "tr_literal (VStr s) = JStr s"
| "tr_literal (VNum i) = JNum i"
| "tr_literal (VBool b) = JBool b"
| "tr_literal VNull = JNull"

fun tr_expr :: "lexpr \<Rightarrow> jexpr" where
  "tr_expr (ELiteral v) = tr_literal v"
| "tr_expr (EIdentifier name) =
     (if name \<in> set builtin_tags then JTagBuilder name
      else if name = ''state'' then JMember JThis ''state''
      else if name = ''props'' then JMember JThis ''props''
      else if name = ''setState'' then JMember JThis ''setState''
      else JName name)"
| "tr_expr (EBinary l operator r) =
     (if operator = ''..'' then JConcat (tr_expr l) (tr_expr r)
      else if operator = ''=='' then JBin ''==='' (tr_expr l) (tr_expr r)
      else if operator = ''~='' \<or> operator = ''!='' then JBin ''!=='' (tr_expr l) (tr_expr r)
      else JBin operator (tr_expr l) (tr_expr r))"
| "tr_expr (EUnary operator e) =
     (if operator = ''not'' then JNot (tr_expr e) else JPrefix operator (tr_expr e))"
| "tr_expr (EAssignment l r) = JAssign (tr_expr l) (tr_expr r)"
| "tr_expr (ECall f args) = JCall (tr_expr f) (map tr_expr args)"
| "tr_expr (EMember e p) = JMember (tr_expr e) p"
| "tr_expr (EIndex e p) = JIndex (tr_expr e) (tr_expr p)"

fun tr_stmt :: "lstmt \<Rightarrow> jstmt" where
  "tr_stmt (SLocalDeclaration name init) =
     JLet name (case init of None \<Rightarrow> JName ''undefined'' | Some e \<Rightarrow> tr_expr e)"
| "tr_stmt (SIf c t eis e) =
     JIf (tr_expr c) (map tr_stmt t) (map (\<lambda>(c, b). (tr_expr c, map tr_stmt b)) eis)
       (map_option (map tr_stmt) e)"
| "tr_stmt (SNumericFor variable start end step body) =
     JFor variable (tr_expr start) (tr_expr end)
       (case step of None \<Rightarrow> JNum 1 | Some e \<Rightarrow> tr_expr e) (map tr_stmt body)"
| "tr_stmt (SGenericFor variable iterable body) =
     JForOf variable (tr_expr iterable) (map tr_stmt body)"
| "tr_stmt (SWhile c body) = JWhile (tr_expr c) (map tr_stmt body)"
| "tr_stmt (SRepeat body c) = JDoWhileNot (map tr_stmt body) (tr_expr c)"
| "tr_stmt (SReturn v) = JReturn (map_option tr_expr v)"
| "tr_stmt SBreak = JBreak"
| "tr_stmt (SExpression e) = JExprStmt (tr_expr e)"

text \<open>
  Execution of the emitted statements over integer, boolean and string values (\<^verbatim>\<open>NaN\<close> is
  a value, on which no operator is given a meaning here). Variables live
  in an association list; \<open>iterations\<close> counts how many times a loop body has been
  entered. A result is a completion (normal, or by \<^verbatim>\<open>break\<close>) with the state, a thrown
  error, the end of the step budget, or a construct without semantics here.
\<close>

datatype jsv = NumV int | NaNV | BoolV bool | StrV string | UndefinedV | NullV | ObjV nat

record jstate =
  vars :: "(string \<times> jsv) list"
  iterations :: nat

datatype signal = Normal | Broke

datatype 'a jres = JOk 'a | JThrow string | JFuel | JUnsupported

fun jbind :: "'a jres \<Rightarrow> ('a \<Rightarrow> 'b jres) \<Rightarrow> 'b jres" where
  "jbind (JOk a) f = f a"
| "jbind (JThrow e) f = JThrow e"
| "jbind JFuel f = JFuel"
| "jbind JUnsupported f = JUnsupported"

fun set_var :: "string \<Rightarrow> jsv \<Rightarrow> (string \<times> jsv) list \<Rightarrow> (string \<times> jsv) list" where
  "set_var x v [] = [(x, v)]"
| "set_var x v ((y, w) # rest) = (if x = y then (x, v) # rest else (y, w) # set_var x v rest)"

fun del_var :: "string \<Rightarrow> (string \<times> jsv) list \<Rightarrow> (string \<times> jsv) list" where
  "del_var x [] = []"
| "del_var x ((y, w) # rest) = (if x = y then rest else (y, w) # del_var x rest)"

text \<open>Leaving the scope of a \<^verbatim>\<open>let\<close> binding: the binding of the enclosing scope is back.\<close>

definition restore_var :: "(string \<times> jsv) list \<Rightarrow> string \<Rightarrow> (string \<times> jsv) list \<Rightarrow> (string \<times> jsv) list" where
  "restore_var outer x inner =
     (case map_of outer x of None \<Rightarrow> del_var x inner | Some v \<Rightarrow> set_var x v inner)"

fun let_names :: "jstmt list \<Rightarrow> string list" where
  "let_names [] = []"
| "let_names (JLet x e # rest) = x # let_names rest"
| "let_names (s # rest) = let_names rest"

fun binop :: "string \<Rightarrow> jsv \<Rightarrow> jsv \<Rightarrow> jsv jres" where
  "binop operator (NumV a) (NumV b) =
     (if operator = ''+'' then JOk (NumV (a + b))
      else if operator = ''-'' then JOk (NumV (a - b))
      else if operator = ''*'' then JOk (NumV (a * b))
      else if operator = ''<='' then JOk (BoolV (a \<le> b))
      else if operator = ''<'' then JOk (BoolV (a < b))
      else if operator = ''>='' then JOk (BoolV (a \<ge> b))
      else if operator = ''>'' then JOk (BoolV (a > b))
      else if operator = ''==='' then JOk (BoolV (a = b))
      else if operator = ''!=='' then JOk (BoolV (a \<noteq> b))
      else JUnsupported)"
| "binop operator a b = JUnsupported"

fun eval :: "jexpr \<Rightarrow> jstate \<Rightarrow> (jsv \<times> jstate) jres" where
  "eval (JNum i) st = JOk (NumV i, st)"
| "eval (JBool b) st = JOk (BoolV b, st)"
| "eval (JStr s) st = JOk (StrV s, st)"
| "eval (JName x) st =
     (case map_of (vars st) x of
        Some v \<Rightarrow> JOk (v, st)
      | None \<Rightarrow> if x = ''undefined'' then JOk (UndefinedV, st) else JThrow ''ReferenceError'')"
| "eval (JBin operator l r) st =
     jbind (eval l st) (\<lambda>(a, st1).
     jbind (eval r st1) (\<lambda>(b, st2).
     jbind (binop operator a b) (\<lambda>v. JOk (v, st2))))"
| "eval (JPrefix operator e) st =
     jbind (eval e st) (\<lambda>(a, st1).
       case a of
         NumV i \<Rightarrow> (if operator = ''-'' then JOk (NumV (- i), st1) else JUnsupported)
       | _ \<Rightarrow> JUnsupported)"
| "eval (JNot e) st =
     jbind (eval e st) (\<lambda>(a, st1).
       case a of BoolV b \<Rightarrow> JOk (BoolV (\<not> b), st1) | _ \<Rightarrow> JUnsupported)"
| "eval (JAssign (JName x) r) st =
     jbind (eval r st) (\<lambda>(v, st1). JOk (v, st1\<lparr>vars := set_var x v (vars st1)\<rparr>))"
| "eval e st = JUnsupported"

fun exec :: "nat \<Rightarrow> jstmt \<Rightarrow> jstate \<Rightarrow> (signal \<times> jstate) jres"
and exec_seq :: "nat \<Rightarrow> jstmt list \<Rightarrow> jstate \<Rightarrow> (signal \<times> jstate) jres"
and exec_block :: "nat \<Rightarrow> jstmt list \<Rightarrow> jstate \<Rightarrow> (signal \<times> jstate) jres"
and exec_loop :: "nat \<Rightarrow> jexpr \<Rightarrow> jstmt list \<Rightarrow> jexpr option \<Rightarrow> jstate \<Rightarrow> jstate jres"
where
  "exec 0 s st = JFuel"
| "exec_seq 0 ss st = JFuel"
| "exec_block 0 ss st = JFuel"
| "exec_loop 0 c body update st = JFuel"
| "exec (Suc n) (JLet x e) st =
     jbind (eval e st) (\<lambda>(v, st1). JOk (Normal, st1\<lparr>vars := set_var x v (vars st1)\<rparr>))"
| "exec (Suc n) (JExprStmt e) st = jbind (eval e st) (\<lambda>(v, st1). JOk (Normal, st1))"
| "exec (Suc n) JBreak st = JOk (Broke, st)"
| "exec (Suc n) (JIf c t eis e) st =
     jbind (eval c st) (\<lambda>(v, st1).
       if v = BoolV True then exec_block n t st1
       else if v = BoolV False
       then (case eis of
               (c2, b) # rest \<Rightarrow> exec n (JIf c2 b rest e) st1
             | [] \<Rightarrow> (case e of None \<Rightarrow> JOk (Normal, st1) | Some b \<Rightarrow> exec_block n b st1))
       else JUnsupported)"
| \<comment> \<open>\<^verbatim>\<open>for (let v = init; v <= bound; v += step) { body }\<close>\<close>
  "exec (Suc n) (JFor v init bound step body) st =
     jbind (eval init st) (\<lambda>(i, st1).
     jbind (exec_loop n (JBin ''<='' (JName v) bound) body
              (Some (JAssign (JName v) (JBin ''+'' (JName v) step)))
              (st1\<lparr>vars := set_var v i (vars st1)\<rparr>)) (\<lambda>st2.
       JOk (Normal, st2\<lparr>vars := restore_var (vars st) v (vars st2)\<rparr>)))"
| "exec (Suc n) (JWhile c body) st =
     jbind (exec_loop n c body None st) (\<lambda>st1. JOk (Normal, st1))"
| "exec (Suc n) s st = JUnsupported"
| "exec_seq (Suc n) [] st = JOk (Normal, st)"
| "exec_seq (Suc n) (s # ss) st =
     jbind (exec n s st) (\<lambda>(sig, st1). if sig = Normal then exec_seq n ss st1 else JOk (sig, st1))"
| "exec_block (Suc n) ss st =
     jbind (exec_seq n ss st) (\<lambda>(sig, st1).
       JOk (sig, st1\<lparr>vars := fold (restore_var (vars st)) (let_names ss) (vars st1)\<rparr>))"
| \<comment> \<open>test; body; update; again\<close>
  "exec_loop (Suc n) c body update st =
     jbind (eval c st) (\<lambda>(v, st1).
       if v = BoolV True
       then jbind (exec_block n body (st1\<lparr>iterations := iterations st1 + 1\<rparr>)) (\<lambda>(sig, st2).
              if sig = Broke then JOk st2
              else (case update of
                      None \<Rightarrow> exec_loop n c body update st2
                    | Some u \<Rightarrow> jbind (eval u st2) (\<lambda>(w, st3). exec_loop n c body update st3)))
       else if v = BoolV False then JOk st1
       else JUnsupported)"

text \<open>
  The nodes the older \<^verbatim>\<open>Parser.forStatement\<close> builds for
  \<^verbatim>\<open>for i = 1, 5 do sum = sum + i end\<close> and for \<^verbatim>\<open>for i = 10, 1, -2 do ... end\<close> with a
  given body.
\<close>

definition for_sum :: lstmt where
  "for_sum =
     SNumericFor ''i'' (ELiteral (VNum 1)) (ELiteral (VNum 5)) None
       [SExpression (EAssignment (EIdentifier ''sum'')
                       (EBinary (EIdentifier ''sum'') ''+'' (EIdentifier ''i'')))]"

definition for_down :: "lstmt list \<Rightarrow> lstmt" where
  "for_down body =
     SNumericFor ''i'' (ELiteral (VNum 10)) (ELiteral (VNum 1))
       (Some (EUnary ''-'' (ELiteral (VNum 2)))) body"

section \<open>AdvancedCompiler (src/luaui.js): code generation and the optimization passes\<close>


























section \<open>AdvancedReactiveSystem (src/luaui.js)\<close>

text \<open>
  Objects are told apart by identity: the raw target objects behind the reactive
  proxies, the wrapper objects returned by \<^verbatim>\<open>ref\<close> and \<^verbatim>\<open>computed\<close>, and the reactive system
  itself. Effects are identified by numbers as well. Target objects are plain objects
  (no arrays), so the two array branches of \<^verbatim>\<open>trigger\<close> are never taken.

  User code (the function of an effect, a getter, a scheduler) is a program over the
  operations it can perform on the system: reading and writing a property of a reactive
  proxy, reading \<^verbatim>\<open>.value\<close> of a computed or a ref, calling \<^verbatim>\<open>queueJob\<close>, throwing, and
  returning a value. What it does next may depend on the value read.
\<close>

datatype obj = Plain nat | RefWrapper nat | ComputedWrapper nat | System

datatype jserr = TypeError | RangeError | UserError string

datatype prog =
    Ret jsv
  | Get nat string "jsv \<Rightarrow> prog"
  | Put nat string jsv prog
  | ReadComputed nat "jsv \<Rightarrow> prog"
  | ReadRef nat "jsv \<Rightarrow> prog"
  | QueueJob nat prog
  | Throw jserr

text \<open>
  A scheduler is user code, or the closure that \<^verbatim>\<open>computed\<close> installs:
  \<^verbatim>\<open>() => { if (!dirty) { dirty = true; this.trigger(computed, 'set', 'value'); } }\<close>.
\<close>

datatype sched = ComputedScheduler nat | UserScheduler prog

record effect_rec =
  active :: bool
  deps :: "(obj \<times> string) list"
  is_computed :: bool
  scheduler :: "sched option"
  fn :: prog

text \<open>The closure variables \<^verbatim>\<open>dirty\<close>, \<^verbatim>\<open>value\<close> and \<^verbatim>\<open>runner\<close> of one call of \<^verbatim>\<open>computed\<close>.\<close>

record cell =
  dirty :: bool
  cached :: jsv
  runner :: nat

text \<open>
  \<open>calls\<close> is a log kept by the model, not by the source: the effect functions whose
  body was entered and the schedulers that were called, in order.
\<close>

datatype invocation = RanBody nat | RanScheduler nat

record rsys =
  heap :: "nat \<times> string \<Rightarrow> jsv"
  targetMap :: "obj \<times> string \<Rightarrow> nat list"
  effects :: "nat \<Rightarrow> effect_rec option"
  computeds :: "nat \<Rightarrow> cell option"
  refs :: "nat \<Rightarrow> jsv option"
  currentEffect :: "nat option"
  effectStack :: "nat list"
  queue :: "nat list"
  isFlushPending :: bool
  calls :: "invocation list"

datatype 'a rres = ROk 'a rsys | RThrow jserr rsys | RFuel

fun rbind :: "'a rres \<Rightarrow> ('a \<Rightarrow> rsys \<Rightarrow> 'b rres) \<Rightarrow> 'b rres" where
  "rbind (ROk a s) f = f a s"
| "rbind (RThrow e s) f = RThrow e s"
| "rbind RFuel f = RFuel"

text \<open>\<^verbatim>\<open>try { ... } finally { ... }\<close>\<close>

fun try_finally :: "'a rres \<Rightarrow> (rsys \<Rightarrow> rsys) \<Rightarrow> 'a rres" where
  "try_finally (ROk a s) f = ROk a (f s)"
| "try_finally (RThrow e s) f = RThrow e (f s)"
| "try_finally RFuel f = RFuel"

text \<open>
  The effect with a given identity. The identities in dependency sets, on the stack and
  in the queue are those of created effects; for any other number this is an inactive
  effect without dependencies.
\<close>

definition eff :: "rsys \<Rightarrow> nat \<Rightarrow> effect_rec" where
  "eff s e =
     (case effects s e of
        Some x \<Rightarrow> x
      | None \<Rightarrow> \<lparr>active = False, deps = [], is_computed = False, scheduler = None,
                 fn = Ret UndefinedV\<rparr>)"

definition track :: "obj \<Rightarrow> string \<Rightarrow> rsys \<Rightarrow> rsys" where
  "track target key s =
     (case currentEffect s of
        None \<Rightarrow> s
      | Some e \<Rightarrow>
          (let dep = targetMap s (target, key)
           in if e \<in> set dep then s
              else s\<lparr>targetMap := (targetMap s)((target, key) := dep @ [e]),
                      effects := (effects s)(e \<mapsto> (eff s e)\<lparr>deps := deps (eff s e) @ [(target, key)]\<rparr>)\<rparr>))"

definition cleanup :: "nat \<Rightarrow> rsys \<Rightarrow> rsys" where
  "cleanup e s =
     (if deps (eff s e) \<noteq> []
      then s\<lparr>targetMap := fold (\<lambda>d m. m(d := removeAll e (m d))) (deps (eff s e)) (targetMap s),
              effects := (effects s)(e \<mapsto> (eff s e)\<lparr>deps := []\<rparr>)\<rparr>
      else s)"

text \<open>
  The methods call each other recursively; as in the parser, each is a definition that
  reaches the others through \<open>rec\<close>, and \<open>run\<close> closes the recursion with a bound on the
  number of nested calls.
\<close>

datatype rcall = RunProg prog | CallEffect nat | Trigger obj string | ComputedGet nat

text \<open>The function \<^verbatim>\<open>effect\<close> that \<^verbatim>\<open>effect(fn, options)\<close> returns, called without arguments.\<close>

definition effect_call :: "(rcall \<Rightarrow> rsys \<Rightarrow> jsv rres) \<Rightarrow> nat \<Rightarrow> rsys \<Rightarrow> jsv rres" where
  "effect_call rec e s =
     (if active (eff s e)
      then (let s1 = cleanup e s;
                s2 = s1\<lparr>currentEffect := Some e, effectStack := effectStack s1 @ [e],
                        calls := calls s1 @ [RanBody e]\<rparr>
            in try_finally (rec (RunProg (fn (eff s2 e))) s2)
                 (\<lambda>s3. let stack = butlast (effectStack s3)
                        in s3\<lparr>effectStack := stack,
                               currentEffect := (if stack = [] then None else Some (last stack))\<rparr>))
      else ROk UndefinedV s)"

text \<open>
  \<^verbatim>\<open>trigger\<close> first fills the sets \<^verbatim>\<open>computedRunners\<close> and \<^verbatim>\<open>effects\<close> from the subscribers
  of the key, leaving out the current effect, and then runs the first set and the
  second; \<open>trigger_order\<close> is the resulting order of calls.
\<close>

definition trigger_order :: "rsys \<Rightarrow> obj \<Rightarrow> string \<Rightarrow> nat list" where
  "trigger_order s target key =
     (let effectsToAdd = filter (\<lambda>e. Some e \<noteq> currentEffect s) (targetMap s (target, key))
      in filter (\<lambda>e. is_computed (eff s e)) effectsToAdd
         @ filter (\<lambda>e. \<not> is_computed (eff s e)) effectsToAdd)"

definition run_scheduler ::
  "(rcall \<Rightarrow> rsys \<Rightarrow> jsv rres) \<Rightarrow> sched \<Rightarrow> nat \<Rightarrow> rsys \<Rightarrow> jsv rres" where
  "run_scheduler rec sch e s =
     (let s0 = s\<lparr>calls := calls s @ [RanScheduler e]\<rparr>
      in case sch of
           UserScheduler p \<Rightarrow> rec (RunProg p) s0
         | ComputedScheduler c \<Rightarrow>
             (case computeds s0 c of
                Some cl \<Rightarrow>
                  (if \<not> dirty cl
                   then rec (Trigger (ComputedWrapper c) ''value'')
                          (s0\<lparr>computeds := (computeds s0)(c \<mapsto> cl\<lparr>dirty := True\<rparr>)\<rparr>)
                   else ROk UndefinedV s0)
              | None \<Rightarrow> ROk UndefinedV s0))"

text \<open>\<^verbatim>\<open>if (effect.scheduler) { effect.scheduler(); } else { effect(); }\<close>\<close>

definition invoke :: "(rcall \<Rightarrow> rsys \<Rightarrow> jsv rres) \<Rightarrow> nat \<Rightarrow> rsys \<Rightarrow> jsv rres" where
  "invoke rec e s =
     (case scheduler (eff s e) of
        Some sch \<Rightarrow> run_scheduler rec sch e s
      | None \<Rightarrow> rec (CallEffect e) s)"

primrec invoke_all :: "(rcall \<Rightarrow> rsys \<Rightarrow> jsv rres) \<Rightarrow> nat list \<Rightarrow> rsys \<Rightarrow> jsv rres" where
  "invoke_all rec [] s = ROk UndefinedV s"
| "invoke_all rec (e # es) s = rbind (invoke rec e s) (\<lambda>_ s1. invoke_all rec es s1)"

definition trigger :: "(rcall \<Rightarrow> rsys \<Rightarrow> jsv rres) \<Rightarrow> obj \<Rightarrow> string \<Rightarrow> rsys \<Rightarrow> jsv rres" where
  "trigger rec target key s = invoke_all rec (trigger_order s target key) s"

text \<open>The \<^verbatim>\<open>get\<close> and \<^verbatim>\<open>set\<close> handlers of the proxy that \<^verbatim>\<open>reactive\<close> creates.\<close>

definition proxy_get :: "nat \<Rightarrow> string \<Rightarrow> rsys \<Rightarrow> jsv \<times> rsys" where
  "proxy_get t key s =
     (if key = ''__v_isReactive'' then (BoolV True, s)
      else if key = ''__v_raw'' then (ObjV t, s)
      else (heap s (t, key), track (Plain t) key s))"

text \<open>
  \<^verbatim>\<open>a !== b\<close>: values of different types or different values differ, objects are compared
  by identity, and \<^verbatim>\<open>NaN\<close> differs from itself.
\<close>

definition strict_ne :: "jsv \<Rightarrow> jsv \<Rightarrow> bool" where
  "strict_ne a b = (a \<noteq> b \<or> a = NaNV)"

definition is_object :: "jsv \<Rightarrow> bool" where
  "is_object v = (case v of ObjV _ \<Rightarrow> True | _ \<Rightarrow> False)"

definition proxy_set ::
  "(rcall \<Rightarrow> rsys \<Rightarrow> jsv rres) \<Rightarrow> nat \<Rightarrow> string \<Rightarrow> jsv \<Rightarrow> rsys \<Rightarrow> jsv rres" where
  "proxy_set rec t key v s =
     (let oldValue = heap s (t, key);
          s1 = s\<lparr>heap := (heap s)((t, key) := v)\<rparr>
      in if strict_ne oldValue v \<or> is_object v then rec (Trigger (Plain t) key) s1
         else ROk UndefinedV s1)"

text \<open>
  A method call \<^verbatim>\<open>this.track(...)\<close> looks \<^verbatim>\<open>track\<close> up on \<^verbatim>\<open>this\<close>. The reactive system has the
  methods of its class. The wrappers returned by \<^verbatim>\<open>ref\<close> and \<^verbatim>\<open>computed\<close> are object literals
  with the single accessor property \<^verbatim>\<open>value\<close>; beyond it they inherit the methods of
  \<^verbatim>\<open>Object.prototype\<close>. Calling a property that is not a function throws a TypeError.
\<close>

definition system_methods :: "string list" where
  "system_methods =
     [''reactive'', ''readonly'', ''shallowReactive'', ''track'', ''trigger'', ''effect'',
      ''stop'', ''cleanup'', ''computed'', ''ref'', ''watch'', ''nextTick'', ''queueJob'',
      ''queueFlush'', ''flushJobs'', ''flushPreFlushCbs'', ''flushPostFlushCbs'']"

definition object_prototype_methods :: "string list" where
  "object_prototype_methods =
     [''constructor'', ''hasOwnProperty'', ''isPrototypeOf'', ''propertyIsEnumerable'',
      ''toLocaleString'', ''toString'', ''valueOf'', ''__defineGetter__'',
      ''__defineSetter__'', ''__lookupGetter__'', ''__lookupSetter__'']"

fun has_method :: "obj \<Rightarrow> string \<Rightarrow> bool" where
  "has_method System name = (name \<in> set system_methods \<or> name \<in> set object_prototype_methods)"
| "has_method (RefWrapper r) name = (name \<in> set object_prototype_methods)"
| "has_method (ComputedWrapper c) name = (name \<in> set object_prototype_methods)"
| "has_method (Plain t) name = (name \<in> set object_prototype_methods)"

text \<open>
  The getter of the object returned by \<^verbatim>\<open>ref(value)\<close>:
  \<^verbatim>\<open>get value() { this.track(this, 'get', 'value'); return value; }\<close>, read as a property
  of the wrapper, so that \<^verbatim>\<open>this\<close> is the wrapper.
\<close>

definition ref_get :: "nat \<Rightarrow> rsys \<Rightarrow> jsv rres" where
  "ref_get r s =
     (let this = RefWrapper r
      in if has_method this ''track''
         then ROk (case refs s r of Some v \<Rightarrow> v | None \<Rightarrow> UndefinedV) (track this ''value'' s)
         else RThrow TypeError s)"

text \<open>
  The getter of the object returned by \<^verbatim>\<open>computed(getter)\<close>:
  \<^verbatim>\<open>get value() { if (dirty) { value = runner(); dirty = false; }
  this.track(computed, 'get', 'value'); return value; }\<close>.
\<close>

definition computed_get :: "(rcall \<Rightarrow> rsys \<Rightarrow> jsv rres) \<Rightarrow> nat \<Rightarrow> rsys \<Rightarrow> jsv rres" where
  "computed_get rec c s =
     (let this = ComputedWrapper c
      in case computeds s c of
           None \<Rightarrow> RThrow TypeError s
         | Some cl \<Rightarrow>
             rbind (if dirty cl
                    then rbind (rec (CallEffect (runner cl)) s) (\<lambda>v s1.
                           ROk v (s1\<lparr>computeds :=
                                      (computeds s1)(c \<mapsto> \<lparr>dirty = False, cached = v,
                                                            runner = runner cl\<rparr>)\<rparr>))
                    else ROk (cached cl) s) (\<lambda>v s2.
               if has_method this ''track'' then ROk v (track this ''value'' s2)
               else RThrow TypeError s2))"

text \<open>\<^verbatim>\<open>queueJob\<close> and \<^verbatim>\<open>queueFlush\<close>; the flush itself is deferred by \<^verbatim>\<open>nextTick\<close>.\<close>

definition queueFlush :: "rsys \<Rightarrow> rsys" where
  "queueFlush s = (if \<not> isFlushPending s then s\<lparr>isFlushPending := True\<rparr> else s)"

definition queueJob :: "nat \<Rightarrow> rsys \<Rightarrow> rsys" where
  "queueJob job s = (if job \<notin> set (queue s) then queueFlush (s\<lparr>queue := queue s @ [job]\<rparr>) else s)"

definition run_prog :: "(rcall \<Rightarrow> rsys \<Rightarrow> jsv rres) \<Rightarrow> prog \<Rightarrow> rsys \<Rightarrow> jsv rres" where
  "run_prog rec p s =
     (case p of
        Ret v \<Rightarrow> ROk v s
      | Get t key k \<Rightarrow> (case proxy_get t key s of (v, s1) \<Rightarrow> rec (RunProg (k v)) s1)
      | Put t key v p' \<Rightarrow> rbind (proxy_set rec t key v s) (\<lambda>_ s1. rec (RunProg p') s1)
      | ReadComputed c k \<Rightarrow> rbind (rec (ComputedGet c) s) (\<lambda>v s1. rec (RunProg (k v)) s1)
      | ReadRef r k \<Rightarrow> rbind (ref_get r s) (\<lambda>v s1. rec (RunProg (k v)) s1)
      | QueueJob job p' \<Rightarrow> rec (RunProg p') (queueJob job s)
      | Throw e \<Rightarrow> RThrow e s)"

fun rdispatch :: "(rcall \<Rightarrow> rsys \<Rightarrow> jsv rres) \<Rightarrow> rcall \<Rightarrow> rsys \<Rightarrow> jsv rres" where
  "rdispatch rec (RunProg p) s = run_prog rec p s"
| "rdispatch rec (CallEffect e) s = effect_call rec e s"
| "rdispatch rec (Trigger target key) s = trigger rec target key s"
| "rdispatch rec (ComputedGet c) s = computed_get rec c s"

primrec run :: "nat \<Rightarrow> rcall \<Rightarrow> rsys \<Rightarrow> jsv rres" where
  "run 0 c s = RFuel"
| "run (Suc n) c s = rdispatch (run n) c s"

text \<open>
  \<^verbatim>\<open>flushJobs\<close>. No method fills the pre-flush and post-flush callback lists, so they are
  empty. The queue is sorted by \<^verbatim>\<open>id\<close>; every \<^verbatim>\<open>id\<close> is \<^verbatim>\<open>++this.uid\<close> with \<^verbatim>\<open>uid\<close> never
  initialised, that is \<^verbatim>\<open>NaN\<close>, so the comparison function returns \<^verbatim>\<open>NaN\<close> throughout and
  the (stable) sort keeps the order of insertion.
\<close>

primrec run_jobs :: "nat \<Rightarrow> nat list \<Rightarrow> rsys \<Rightarrow> jsv rres" where
  "run_jobs n [] s = ROk UndefinedV s"
| "run_jobs n (job # jobs) s =
     (if active (eff s job)
      then rbind (run n (CallEffect job) s) (\<lambda>_ s1. run_jobs n jobs s1)
      else run_jobs n jobs s)"

definition flushJobs :: "nat \<Rightarrow> rsys \<Rightarrow> jsv rres" where
  "flushJobs n s = run_jobs n (queue s) (s\<lparr>isFlushPending := False, queue := []\<rparr>)"

text \<open>
  \<^verbatim>\<open>effect(fn, options)\<close>, \<^verbatim>\<open>computed(getter)\<close> and \<^verbatim>\<open>ref(value)\<close>; the first argument after the
  bound is the identity of the object created.
\<close>

definition effect ::
  "nat \<Rightarrow> nat \<Rightarrow> prog \<Rightarrow> bool \<Rightarrow> bool \<Rightarrow> sched option \<Rightarrow> rsys \<Rightarrow> jsv rres" where
  "effect n e p lazy is_comp sch s =
     (let s1 = s\<lparr>effects := (effects s)(e \<mapsto> \<lparr>active = True, deps = [], is_computed = is_comp,
                                                scheduler = sch, fn = p\<rparr>)\<rparr>
      in if \<not> lazy then run n (CallEffect e) s1 else ROk UndefinedV s1)"

definition computed :: "nat \<Rightarrow> nat \<Rightarrow> nat \<Rightarrow> prog \<Rightarrow> rsys \<Rightarrow> jsv rres" where
  "computed n c e getter s =
     rbind (effect n e getter True True (Some (ComputedScheduler c)) s) (\<lambda>_ s1.
       ROk (ObjV c) (s1\<lparr>computeds := (computeds s1)(c \<mapsto> \<lparr>dirty = True, cached = UndefinedV,
                                                          runner = e\<rparr>)\<rparr>))"

definition ref :: "nat \<Rightarrow> jsv \<Rightarrow> rsys \<Rightarrow> rsys" where
  "ref r v s = s\<lparr>refs := (refs s)(r \<mapsto> v)\<rparr>"

definition new_system :: rsys where
  "new_system =
     \<lparr>heap = (\<lambda>_. UndefinedV), targetMap = (\<lambda>_. []), effects = (\<lambda>_. None),
      computeds = (\<lambda>_. None), refs = (\<lambda>_. None), currentEffect = None, effectStack = [],
      queue = [], isFlushPending = False, calls = []\<rparr>"

fun state_of :: "'a rres \<Rightarrow> rsys" where
  "state_of (ROk a s) = s"
| "state_of (RThrow e s) = s"
| "state_of RFuel = new_system"

fun outcome_of :: "'a rres \<Rightarrow> (jserr + 'a) option" where
  "outcome_of (ROk a s) = Some (Inr a)"
| "outcome_of (RThrow e s) = Some (Inl e)"
| "outcome_of RFuel = None"

text \<open>
  Vocabulary for the properties. A program \<open>reads_within d\<close> when it only reads reactive
  properties and returns, in at most \<open>d\<close> reads on every path. \<open>static\<close> collects the fields
  of an effect that are fixed at its creation and by \<^verbatim>\<open>stop\<close>. \<open>expected_call\<close> is what
  \<^verbatim>\<open>trigger\<close> does with one subscriber: it calls the scheduler if there is one, and the
  effect function otherwise, which enters the body when the effect is active. A
  subscriber is \<open>quiet\<close> when the code so called only reads, if it is user code (scheduler
  or body), and when the wrapper has no subscriber of its own, if it is the scheduler
  that \<^verbatim>\<open>computed\<close> installs. \<open>reads_of p h\<close> lists the properties that the program \<open>p\<close>
  reads through the proxies when the raw objects hold \<open>h\<close>, leaving out the two keys
  that the \<^verbatim>\<open>get\<close> handler answers without \<^verbatim>\<open>track\<close>. The subscriptions of an effect are
  \<open>recorded\<close> when every dependency set that holds the effect is in its \<^verbatim>\<open>deps\<close>, as
  \<^verbatim>\<open>track\<close> leaves it. \<open>mark_dirty s e\<close> is what the scheduler of a subscriber \<open>e\<close> does to
  the closure variables of the calls of \<^verbatim>\<open>computed\<close>: the scheduler that \<^verbatim>\<open>computed\<close>
  installs sets \<^verbatim>\<open>dirty\<close>. \<open>wrappers_free\<close>: no wrapper returned by \<^verbatim>\<open>computed\<close> or \<^verbatim>\<open>ref\<close> has a
  subscriber; \<open>all_recorded\<close>: the subscriptions of every effect are recorded. \<open>holds P r\<close>:
  the state in which a call has ended, by returning or by throwing, satisfies \<open>P\<close>.
\<close>

fun reads_within :: "nat \<Rightarrow> prog \<Rightarrow> bool" where
  "reads_within d (Ret v) = True"
| "reads_within (Suc d) (Get t key k) = (\<forall>v. reads_within d (k v))"
| "reads_within d p = False"

definition static :: "rsys \<Rightarrow> nat \<Rightarrow> bool \<times> bool \<times> sched option \<times> prog" where
  "static s e = (active (eff s e), is_computed (eff s e), scheduler (eff s e), fn (eff s e))"

definition expected_call :: "rsys \<Rightarrow> nat \<Rightarrow> invocation list" where
  "expected_call s e =
     (case scheduler (eff s e) of
        Some sch \<Rightarrow> [RanScheduler e]
      | None \<Rightarrow> if active (eff s e) then [RanBody e] else [])"

definition quiet :: "nat \<Rightarrow> rsys \<Rightarrow> nat \<Rightarrow> bool" where
  "quiet d s e =
     (case scheduler (eff s e) of
        None \<Rightarrow> reads_within d (fn (eff s e))
      | Some (UserScheduler p) \<Rightarrow> reads_within d p
      | Some (ComputedScheduler c) \<Rightarrow> targetMap s (ComputedWrapper c, ''value'') = [])"

primrec reads_of :: "prog \<Rightarrow> (nat \<times> string \<Rightarrow> jsv) \<Rightarrow> (nat \<times> string) list" where
  "reads_of (Ret v) h = []"
| "reads_of (Get t key k) h =
     (if key = ''__v_isReactive'' then reads_of (k (BoolV True)) h
      else if key = ''__v_raw'' then reads_of (k (ObjV t)) h
      else (t, key) # reads_of (k (h (t, key))) h)"
| "reads_of (Put t key v p) h = []"
| "reads_of (ReadComputed c k) h = []"
| "reads_of (ReadRef r k) h = []"
| "reads_of (QueueJob job p) h = []"
| "reads_of (Throw e) h = []"

definition recorded :: "rsys \<Rightarrow> nat \<Rightarrow> bool" where
  "recorded s e = (\<forall>x. e \<in> set (targetMap s x) \<longrightarrow> x \<in> set (deps (eff s e)))"

definition wrappers_free :: "rsys \<Rightarrow> bool" where
  "wrappers_free s = (\<forall>c k. targetMap s (ComputedWrapper c, k) = []
                            \<and> targetMap s (RefWrapper c, k) = [])"

definition all_recorded :: "rsys \<Rightarrow> bool" where
  "all_recorded s = (\<forall>e. recorded s e)"

definition holds :: "(rsys \<Rightarrow> bool) \<Rightarrow> 'a rres \<Rightarrow> bool" where
  "holds P r = (case r of ROk v s \<Rightarrow> P s | RThrow e s \<Rightarrow> P s | RFuel \<Rightarrow> True)"

definition mark_dirty :: "rsys \<Rightarrow> nat \<Rightarrow> (nat \<Rightarrow> cell option) \<Rightarrow> (nat \<Rightarrow> cell option)" where
  "mark_dirty s e m =
     (case scheduler (eff s e) of
        Some (ComputedScheduler c) \<Rightarrow>
          (case m c of Some cl \<Rightarrow> m(c \<mapsto> cl\<lparr>dirty := True\<rparr>) | None \<Rightarrow> m)
      | _ \<Rightarrow> m)"

text \<open>
  What a call leaves as it was: \<open>unchanged\<close> for a program that only reads, \<open>kept\<close> for
  the call of an effect that only reads (the effect stack is pushed and popped), and
  \<open>settled\<close> for the call of a quiet subscriber, which may set \<^verbatim>\<open>dirty\<close>. A wrapper without
  subscribers stays without.
\<close>

definition unchanged :: "rsys \<Rightarrow> rsys \<Rightarrow> bool" where
  "unchanged s s' = (static s' = static s \<and> currentEffect s' = currentEffect s
     \<and> effectStack s' = effectStack s \<and> queue s' = queue s
     \<and> isFlushPending s' = isFlushPending s \<and> heap s' = heap s \<and> computeds s' = computeds s)"

definition settled :: "rsys \<Rightarrow> rsys \<Rightarrow> bool" where
  "settled s s' = (static s' = static s \<and> heap s' = heap s \<and> queue s' = queue s
     \<and> isFlushPending s' = isFlushPending s
     \<and> (\<forall>c. targetMap s (ComputedWrapper c, ''value'') = []
              \<longrightarrow> targetMap s' (ComputedWrapper c, ''value'') = []))"

definition kept :: "rsys \<Rightarrow> rsys \<Rightarrow> bool" where
  "kept s s' = (settled s s' \<and> computeds s' = computeds s)"

text \<open>
  Concrete systems. \<open>reads_a\<close> is the function \<^verbatim>\<open>() => { obj.a }\<close> for the reactive object
  number 0. \<open>sys_effect_a\<close> is a fresh system after \<^verbatim>\<open>effect(() => { obj.a })\<close>, and
  \<open>sys_after_two\<close> the same after the synchronous turn \<^verbatim>\<open>obj.a = 1; obj.a = 2\<close>;
  \<open>sys_lazy_a\<close> is a fresh system after \<^verbatim>\<open>effect(() => { obj.a }, {lazy: true})\<close>.
  \<open>sys_two_effects\<close> has a plain effect 0 and then an effect 1 created with
  \<^verbatim>\<open>{computed: true}\<close>, both reading \<^verbatim>\<open>obj.a\<close>. \<open>sys_computed_a\<close> is a fresh system after
  \<^verbatim>\<open>c = computed(() => obj.a)\<close>, \<open>sys_computed_read\<close> the same after one read of \<^verbatim>\<open>c.value\<close>,
  and \<open>sys_computed_throws\<close> a fresh system after \<^verbatim>\<open>computed\<close> of a getter that throws a
  RangeError.
\<close>

definition reads_a :: prog where
  "reads_a = Get 0 ''a'' (\<lambda>_. Ret UndefinedV)"


definition sys_effect_a :: rsys where
  "sys_effect_a = state_of (effect 10 0 reads_a False False None new_system)"



definition sys_two_effects :: rsys where
  "sys_two_effects = state_of (effect 10 1 reads_a False True None sys_effect_a)"

definition sys_computed_a :: rsys where
  "sys_computed_a = state_of (computed 10 0 0 reads_a new_system)"

definition sys_computed_read :: rsys where
  "sys_computed_read = state_of (run 10 (ComputedGet 0) sys_computed_a)"

definition sys_computed_throws :: rsys where
  "sys_computed_throws = state_of (computed 10 0 0 (Throw RangeError) new_system)"

section \<open>DOMRenderer (older source version): virtual nodes and the render target\<close>

text \<open>
  Values that occur as properties and as primitive children. Functions and objects are
  told apart by identity. \<open>strict_eq\<close> is \<^verbatim>\<open>===\<close>, which \<^verbatim>\<open>NaN\<close> does not satisfy with itself;
  \<open>truthy\<close> is the conversion to a boolean.
\<close>

datatype pv = PStr string | PNum int | PNaN | PBool bool | PNull | PUndefined | PFun nat | PObj nat

definition strict_eq :: "pv \<Rightarrow> pv \<Rightarrow> bool" where
  "strict_eq a b = (a = b \<and> a \<noteq> PNaN)"

fun truthy :: "pv \<Rightarrow> bool" where
  "truthy (PStr s) = (s \<noteq> [])"
| "truthy (PNum i) = (i \<noteq> 0)"
| "truthy PNaN = False"
| "truthy (PBool b) = b"
| "truthy PNull = False"
| "truthy PUndefined = False"
| "truthy (PFun f) = True"
| "truthy (PObj x) = True"

fun to_string :: "pv \<Rightarrow> string" where
  "to_string (PStr s) = s"
| "to_string (PNum i) = show_int i"
| "to_string PNaN = ''NaN''"
| "to_string (PBool b) = (if b then ''true'' else ''false'')"
| "to_string PNull = ''null''"
| "to_string PUndefined = ''undefined''"
| "to_string (PFun f) = ''function''"
| "to_string (PObj x) = ''[object Object]''"

text \<open>
  A \<^verbatim>\<open>VNode\<close>: its identity as an object, \<^verbatim>\<open>type\<close>, \<^verbatim>\<open>props\<close> (keys in insertion order) and
  \<^verbatim>\<open>children\<close>, which are \<^verbatim>\<open>VNode\<close>s or primitives. The field \<^verbatim>\<open>element\<close>, which the renderer
  assigns, is kept in the renderer state under the identity of the node, so that one
  node object passed twice is one node. The field \<^verbatim>\<open>component\<close> is written and never read
  by the renderer, and is left out.
\<close>

datatype vnode = VNode (vid: nat) (vtype: string) (vprops: "(string \<times> pv) list") (vchildren: "child list")
and child = CNode vnode | CPrim pv

definition get_prop :: "(string \<times> pv) list \<Rightarrow> string \<Rightarrow> pv" where
  "get_prop ps key = (case map_of ps key of Some v \<Rightarrow> v | None \<Rightarrow> PUndefined)"

text \<open>\<^verbatim>\<open>this.key = props.key || null\<close>\<close>

definition vkey :: "vnode \<Rightarrow> pv" where
  "vkey v = (if truthy (get_prop (vprops v) ''key'') then get_prop (vprops v) ''key'' else PNull)"

definition isText :: "vnode \<Rightarrow> bool" where
  "isText v = (vtype v = ''TEXT'')"

definition isComponent :: "vnode \<Rightarrow> bool" where
  "isComponent v = (vtype v = ''COMPONENT'')"

text \<open>
  The render target: a store of nodes with parent and children, and the log of the calls
  made on it. The log also records, in place, the calls into user code that the
  renderer makes: lifecycle hooks, \<^verbatim>\<open>render\<close>, \<^verbatim>\<open>componentWillUnmount\<close> and \<^verbatim>\<open>ref\<close>
  callbacks.
\<close>

datatype nodekind = ElementNode string | TextNode | FragmentNode

record dnode =
  kind :: nodekind
  parentNode :: "nat option"
  childNodes :: "nat list"

datatype dop =
    CreateElement nat string
  | CreateTextNode nat string
  | CreateDocumentFragment nat
  | AppendChild nat nat
  | RemoveChild nat nat
  | ReplaceChild nat nat nat
  | SetAttribute nat string pv
  | RemoveAttribute nat string
  | AddEventListener nat string pv
  | RemoveEventListener nat string pv
  | SetCssText nat pv
  | AssignStyle nat pv
  | SetClassName nat pv
  | SetProperty nat string pv
  | SetTextContent nat pv
  | RefCallback pv "nat option"
  | RefCurrent pv "nat option"
  | Hook string nat
  | Render nat
  | ComponentWillUnmount nat

fun is_mutation :: "dop \<Rightarrow> bool" where
  "is_mutation (RefCallback f e) = False"
| "is_mutation (RefCurrent r e) = False"
| "is_mutation (Hook h i) = False"
| "is_mutation (Render i) = False"
| "is_mutation (ComponentWillUnmount i) = False"
| "is_mutation _ = True"

text \<open>
  A component class as the renderer uses it: \<^verbatim>\<open>render\<close>, which is user code and may return
  a different tree at every call (its arguments are the props of the instance and the
  number of earlier calls on the instance), and whether \<^verbatim>\<open>componentWillUnmount\<close> is
  defined. An instance has its class, \<^verbatim>\<open>props\<close>, \<^verbatim>\<open>vnode\<close>, \<^verbatim>\<open>element\<close> and the number of
  calls of \<^verbatim>\<open>render\<close> so far.
\<close>

record cls =
  render :: "(string \<times> pv) list \<Rightarrow> nat \<Rightarrow> vnode"
  has_componentWillUnmount :: bool

record component_instance =
  icls :: cls
  iprops :: "(string \<times> pv) list"
  ivnode :: "vnode option"
  ielement :: "nat option"
  renders :: nat

record dstate =
  nodes :: "nat \<Rightarrow> dnode option"
  next_handle :: nat
  velement :: "nat \<Rightarrow> nat option"
  mountedComponents :: "nat \<Rightarrow> nat option"
  instances :: "nat \<Rightarrow> component_instance option"
  next_instance :: nat
  getComponent :: "string \<Rightarrow> cls option"
  in_element :: "string \<Rightarrow> bool"
  log :: "dop list"

datatype derror = TypeErrorD | NotFoundError | ComponentNotFound string

datatype 'a dres = DOk 'a dstate | DErr derror dstate | DFuel | DUnmodelled

fun dbind :: "'a dres \<Rightarrow> ('a \<Rightarrow> dstate \<Rightarrow> 'b dres) \<Rightarrow> 'b dres" where
  "dbind (DOk a s) f = f a s"
| "dbind (DErr e s) f = DErr e s"
| "dbind DFuel f = DFuel"
| "dbind DUnmodelled f = DUnmodelled"

definition emit :: "dop \<Rightarrow> dstate \<Rightarrow> dstate" where
  "emit x s = s\<lparr>log := log s @ [x]\<rparr>"

definition the_node :: "dstate \<Rightarrow> nat \<Rightarrow> dnode" where
  "the_node s h =
     (case nodes s h of
        Some n \<Rightarrow> n
      | None \<Rightarrow> \<lparr>kind = TextNode, parentNode = None, childNodes = []\<rparr>)"

definition new_node :: "nodekind \<Rightarrow> dstate \<Rightarrow> nat \<times> dstate" where
  "new_node k s =
     (next_handle s,
      s\<lparr>nodes := (nodes s)(next_handle s \<mapsto> \<lparr>kind = k, parentNode = None, childNodes = []\<rparr>),
        next_handle := next_handle s + 1\<rparr>)"

definition createElementNode :: "string \<Rightarrow> dstate \<Rightarrow> nat \<times> dstate" where
  "createElementNode tag s = (case new_node (ElementNode tag) s of (h, s1) \<Rightarrow> (h, emit (CreateElement h tag) s1))"

definition createTextNode :: "string \<Rightarrow> dstate \<Rightarrow> nat \<times> dstate" where
  "createTextNode t s = (case new_node TextNode s of (h, s1) \<Rightarrow> (h, emit (CreateTextNode h t) s1))"

definition createDocumentFragment :: "dstate \<Rightarrow> nat \<times> dstate" where
  "createDocumentFragment s =
     (case new_node FragmentNode s of (h, s1) \<Rightarrow> (h, emit (CreateDocumentFragment h) s1))"

text \<open>Taking a node out of the child list of its parent, if it has one.\<close>

definition detach :: "nat \<Rightarrow> dstate \<Rightarrow> dstate" where
  "detach h s =
     (case parentNode (the_node s h) of
        None \<Rightarrow> s
      | Some p \<Rightarrow>
          s\<lparr>nodes := (nodes s)
               (p \<mapsto> (the_node s p)\<lparr>childNodes := removeAll h (childNodes (the_node s p))\<rparr>,
                h \<mapsto> (the_node s h)\<lparr>parentNode := None\<rparr>)\<rparr>)"

text \<open>
  The nodes that inserting a node inserts: the children of a document fragment, which
  is left empty, and the node itself otherwise.
\<close>

definition inserted :: "dstate \<Rightarrow> nat \<Rightarrow> nat list" where
  "inserted s h = (if kind (the_node s h) = FragmentNode then childNodes (the_node s h) else [h])"

definition adopt :: "nat \<Rightarrow> nat list \<Rightarrow> dstate \<Rightarrow> dstate" where
  "adopt p hs s =
     fold (\<lambda>h s1. s1\<lparr>nodes := (nodes s1)(h \<mapsto> (the_node s1 h)\<lparr>parentNode := Some p\<rparr>)\<rparr>) hs s"

definition appendChild :: "nat \<Rightarrow> nat \<Rightarrow> dstate \<Rightarrow> dstate" where
  "appendChild p c s =
     (let hs = inserted s c;
          s1 = (if kind (the_node s c) = FragmentNode
                then s\<lparr>nodes := (nodes s)(c \<mapsto> (the_node s c)\<lparr>childNodes := []\<rparr>)\<rparr>
                else detach c s);
          s2 = s1\<lparr>nodes := (nodes s1)
                  (p \<mapsto> (the_node s1 p)\<lparr>childNodes := childNodes (the_node s1 p) @ hs\<rparr>)\<rparr>
      in emit (AppendChild p c) (adopt p hs s2))"

definition removeChild :: "nat \<Rightarrow> nat \<Rightarrow> dstate \<Rightarrow> unit dres" where
  "removeChild p c s =
     (if c \<in> set (childNodes (the_node s p))
      then DOk () (emit (RemoveChild p c) (detach c s))
      else DErr NotFoundError s)"

fun splice :: "nat \<Rightarrow> nat list \<Rightarrow> nat list \<Rightarrow> nat list" where
  "splice old new [] = []"
| "splice old new (x # xs) = (if x = old then new @ xs else x # splice old new xs)"

definition replaceChild :: "nat \<Rightarrow> nat \<Rightarrow> nat \<Rightarrow> dstate \<Rightarrow> unit dres" where
  "replaceChild p new old s =
     (if old \<in> set (childNodes (the_node s p))
      then (let hs = inserted s new;
                s1 = (if kind (the_node s new) = FragmentNode
                      then s\<lparr>nodes := (nodes s)(new \<mapsto> (the_node s new)\<lparr>childNodes := []\<rparr>)\<rparr>
                      else detach new s);
                s2 = s1\<lparr>nodes := (nodes s1)
                        (p \<mapsto> (the_node s1 p)\<lparr>childNodes := splice old hs (childNodes (the_node s1 p))\<rparr>,
                         old \<mapsto> (the_node s1 old)\<lparr>parentNode := None\<rparr>)\<rparr>
            in DOk () (emit (ReplaceChild p new old) (adopt p hs s2)))
      else DErr NotFoundError s)"

text \<open>
  Assigning \<^verbatim>\<open>textContent\<close>: an element loses its children and gets one new text node,
  unless the text is empty; a text node keeps its place.
\<close>

definition setTextContent :: "nat \<Rightarrow> pv \<Rightarrow> dstate \<Rightarrow> dstate" where
  "setTextContent h v s =
     (case kind (the_node s h) of
        TextNode \<Rightarrow> emit (SetTextContent h v) s
      | _ \<Rightarrow>
          (let s1 = fold detach (childNodes (the_node s h)) s;
               s2 = emit (SetTextContent h v) s1
           in if to_string v = [] then s2
              else (case new_node TextNode s2 of
                      (t, s3) \<Rightarrow>
                        s3\<lparr>nodes := (nodes s3)
                             (h \<mapsto> (the_node s3 h)\<lparr>childNodes := [t]\<rparr>,
                              t \<mapsto> (the_node s3 t)\<lparr>parentNode := Some h\<rparr>)\<rparr>)))"

section \<open>DOMRenderer: createElement, updateElement, patch, updateChildren, unmount\<close>

definition to_lower :: "char \<Rightarrow> char" where
  "to_lower c =
     (if (65 :: nat) \<le> of_char c \<and> of_char c \<le> (90 :: nat) then char_of (of_char c + (32 :: nat))
      else c)"

text \<open>\<^verbatim>\<open>key.slice(2).toLowerCase()\<close>\<close>

definition eventType :: "string \<Rightarrow> string" where
  "eventType key = map to_lower (drop 2 key)"

text \<open>
  \<^verbatim>\<open>key in newProps\<close>: an own key of the object, or a name that every object inherits.
\<close>

definition key_in :: "string \<Rightarrow> (string \<times> pv) list \<Rightarrow> bool" where
  "key_in key ps =
     (key \<in> fst ` set ps \<or> key \<in> set object_prototype_methods \<or> key = ''__proto__'')"

text \<open>A call on \<^verbatim>\<open>element\<close>, which throws a TypeError when \<^verbatim>\<open>element\<close> is \<^verbatim>\<open>null\<close>.\<close>

definition on_element :: "nat option \<Rightarrow> (nat \<Rightarrow> dop) \<Rightarrow> dstate \<Rightarrow> unit dres" where
  "on_element element f s =
     (case element of None \<Rightarrow> DErr TypeErrorD s | Some h \<Rightarrow> DOk () (emit (f h) s))"

primrec each :: "('a \<Rightarrow> dstate \<Rightarrow> unit dres) \<Rightarrow> 'a list \<Rightarrow> dstate \<Rightarrow> unit dres" where
  "each f [] s = DOk () s"
| "each f (x # xs) s = dbind (f x s) (\<lambda>_ s1. each f xs s1)"

text \<open>The body of the first loop of \<^verbatim>\<open>updateElement\<close>, over the keys of \<^verbatim>\<open>oldProps\<close>.\<close>

definition remove_old_prop ::
  "nat option \<Rightarrow> (string \<times> pv) list \<Rightarrow> (string \<times> pv) list \<Rightarrow> string \<Rightarrow> dstate \<Rightarrow> unit dres"
where
  "remove_old_prop element oldProps newProps key s =
     (if \<not> key_in key newProps
      then (if take 2 key = ''on''
            then on_element element
                   (\<lambda>h. RemoveEventListener h (eventType key) (get_prop oldProps key)) s
            else if key = ''style'' then on_element element (\<lambda>h. SetCssText h (PStr [])) s
            else if key = ''className'' \<or> key = ''class''
            then on_element element (\<lambda>h. SetClassName h (PStr [])) s
            else on_element element
                   (\<lambda>h. if in_element s key then SetProperty h key (PStr [])
                        else RemoveAttribute h key) s)
      else DOk () s)"

text \<open>The body of the second loop, over the keys of \<^verbatim>\<open>newProps\<close>.\<close>

definition set_new_prop ::
  "nat option \<Rightarrow> (string \<times> pv) list \<Rightarrow> (string \<times> pv) list \<Rightarrow> string \<Rightarrow> dstate \<Rightarrow> unit dres"
where
  "set_new_prop element oldProps newProps key s =
     (if key = ''key'' \<or> key = ''ref'' \<or> key = ''componentType'' then DOk () s
      else if \<not> strict_eq (get_prop oldProps key) (get_prop newProps key)
      then (if take 2 key = ''on''
            then dbind (if truthy (get_prop oldProps key)
                        then on_element element
                               (\<lambda>h. RemoveEventListener h (eventType key) (get_prop oldProps key)) s
                        else DOk () s) (\<lambda>_ s1.
                   if truthy (get_prop newProps key)
                   then on_element element
                          (\<lambda>h. AddEventListener h (eventType key) (get_prop newProps key)) s1
                   else DOk () s1)
            else if key = ''style''
            then (case get_prop newProps key of
                    PObj x \<Rightarrow> on_element element (\<lambda>h. AssignStyle h (PObj x)) s
                  | PNull \<Rightarrow> on_element element (\<lambda>h. AssignStyle h PNull) s
                  | v \<Rightarrow> on_element element (\<lambda>h. SetCssText h v) s)
            else if key = ''className'' \<or> key = ''class''
            then on_element element (\<lambda>h. SetClassName h (get_prop newProps key)) s
            else on_element element
                   (\<lambda>h. if in_element s key then SetProperty h key (get_prop newProps key)
                        else SetAttribute h key (get_prop newProps key)) s)
      else DOk () s)"

definition updateElement ::
  "nat option \<Rightarrow> (string \<times> pv) list \<Rightarrow> (string \<times> pv) list \<Rightarrow> dstate \<Rightarrow> unit dres" where
  "updateElement element oldProps newProps s =
     dbind (each (remove_old_prop element oldProps newProps) (map fst oldProps) s) (\<lambda>_ s1.
     dbind (each (set_new_prop element oldProps newProps) (map fst newProps) s1) (\<lambda>_ s2.
       if truthy (get_prop newProps ''ref'')
       then (case get_prop newProps ''ref'' of
               PFun f \<Rightarrow> DOk () (emit (RefCallback (PFun f) element) s2)
             | PObj x \<Rightarrow> DOk () (emit (RefCurrent (PObj x) element) s2)
             | _ \<Rightarrow> DOk () s2)
       else DOk () s2))"

text \<open>
  The recursive methods, each reaching the others through \<open>rec\<close>; \<open>drun\<close> closes the
  recursion with a bound on the depth of the calls. A call returns a render-target
  handle (\<^verbatim>\<open>createElement\<close>), a tree or \<^verbatim>\<open>null\<close> (\<^verbatim>\<open>patch\<close>) or nothing (\<^verbatim>\<open>unmount\<close>).
\<close>

datatype dcall = DCreate vnode | DPatch "nat option" "vnode option" "vnode option" | DUnmount vnode

datatype dval = VHandle nat | VTree "vnode option" | VNone

definition with_handle :: "dval dres \<Rightarrow> (nat \<Rightarrow> dstate \<Rightarrow> 'b dres) \<Rightarrow> 'b dres" where
  "with_handle r f =
     dbind r (\<lambda>v s. case v of VHandle h \<Rightarrow> f h s | _ \<Rightarrow> DErr TypeErrorD s)"

definition first_child :: "vnode \<Rightarrow> child" where
  "first_child v = (case vchildren v of [] \<Rightarrow> CPrim PUndefined | c # _ \<Rightarrow> c)"

fun child_value :: "child \<Rightarrow> pv" where
  "child_value (CPrim v) = v"
| "child_value (CNode v) = PObj (vid v)"

fun child_strict_eq :: "child \<Rightarrow> child \<Rightarrow> bool" where
  "child_strict_eq (CPrim a) (CPrim b) = strict_eq a b"
| "child_strict_eq (CNode a) (CNode b) = (vid a = vid b)"
| "child_strict_eq _ _ = False"

fun child_truthy :: "child option \<Rightarrow> bool" where
  "child_truthy None = False"
| "child_truthy (Some (CNode v)) = True"
| "child_truthy (Some (CPrim v)) = truthy v"

text \<open>
  \<^verbatim>\<open>childElement = child instanceof VNode ? this.createElement(child)
  : document.createTextNode(String(child))\<close>
\<close>

definition child_element :: "(dcall \<Rightarrow> dstate \<Rightarrow> dval dres) \<Rightarrow> child \<Rightarrow> dstate \<Rightarrow> dval dres" where
  "child_element rec c s =
     (case c of
        CNode v \<Rightarrow> rec (DCreate v) s
      | CPrim v \<Rightarrow> (case createTextNode (to_string v) s of (h, s1) \<Rightarrow> DOk (VHandle h) s1))"

definition createComponent :: "(dcall \<Rightarrow> dstate \<Rightarrow> dval dres) \<Rightarrow> vnode \<Rightarrow> dstate \<Rightarrow> dval dres" where
  "createComponent rec vnode s =
     (let componentType = get_prop (vprops vnode) ''componentType''
      in case (case componentType of PStr name \<Rightarrow> getComponent s name | _ \<Rightarrow> None) of
           None \<Rightarrow> DErr (ComponentNotFound (to_string componentType)) s
         | Some c \<Rightarrow>
             (let i = next_instance s;
                  s1 = s\<lparr>instances := (instances s)(i \<mapsto> \<lparr>icls = c, iprops = vprops vnode,
                                                         ivnode = None, ielement = None,
                                                         renders = 1\<rparr>),
                         next_instance := i + 1\<rparr>;
                  s2 = emit (Render i) (emit (Hook ''beforeMount'' i) s1);
                  rendered = render c (vprops vnode) 0
              in with_handle (rec (DCreate rendered) s2) (\<lambda>element s3.
                   DOk (VHandle element)
                     (emit (Hook ''afterMount'' i)
                        (s3\<lparr>velement := (velement s3)(vid vnode \<mapsto> element),
                            instances := (instances s3)(i \<mapsto> \<lparr>icls = c, iprops = vprops vnode,
                                                            ivnode = Some rendered,
                                                            ielement = Some element,
                                                            renders = 1\<rparr>),
                            mountedComponents := (mountedComponents s3)(vid vnode \<mapsto> i)\<rparr>)))))"

definition createElement :: "(dcall \<Rightarrow> dstate \<Rightarrow> dval dres) \<Rightarrow> vnode \<Rightarrow> dstate \<Rightarrow> dval dres" where
  "createElement rec vnode s =
     (if isText vnode
      then (case createTextNode (to_string (child_value (first_child vnode))) s of
              (h, s1) \<Rightarrow> DOk (VHandle h) s1)
      else if vtype vnode = ''FRAGMENT''
      then (case createDocumentFragment s of
              (fragment, s1) \<Rightarrow>
                dbind (each (\<lambda>c s2. with_handle (child_element rec c s2)
                                       (\<lambda>h s3. DOk () (appendChild fragment h s3)))
                         (vchildren vnode) s1) (\<lambda>_ s4. DOk (VHandle fragment) s4))
      else if isComponent vnode then createComponent rec vnode s
      else (case createElementNode (vtype vnode) s of
              (element, s1) \<Rightarrow>
                dbind (updateElement (Some element) [] (vprops vnode)
                         (s1\<lparr>velement := (velement s1)(vid vnode \<mapsto> element)\<rparr>)) (\<lambda>_ s2.
                dbind (each (\<lambda>c s3. case c of
                                       CPrim PNull \<Rightarrow> DOk () s3
                                     | CPrim PUndefined \<Rightarrow> DOk () s3
                                     | _ \<Rightarrow> with_handle (child_element rec c s3)
                                              (\<lambda>h s4. DOk () (appendChild element h s4)))
                         (vchildren vnode) s2) (\<lambda>_ s5. DOk (VHandle element) s5))))"

definition isDifferentNodeType :: "vnode \<Rightarrow> vnode \<Rightarrow> bool" where
  "isDifferentNodeType oldVNode newVNode =
     (if vtype oldVNode \<noteq> vtype newVNode then True
      else if isComponent oldVNode \<and> isComponent newVNode
      then \<not> strict_eq (get_prop (vprops oldVNode) ''componentType'')
                        (get_prop (vprops newVNode) ''componentType'')
      else False)"

definition unmount :: "(dcall \<Rightarrow> dstate \<Rightarrow> dval dres) \<Rightarrow> vnode \<Rightarrow> dstate \<Rightarrow> dval dres" where
  "unmount rec vnode s =
     (let s1 = (if isComponent vnode
                then (case mountedComponents s (vid vnode) of
                        Some i \<Rightarrow>
                          (let s2 = emit (Hook ''beforeUnmount'' i) s;
                               s3 = (case instances s2 i of
                                       Some inst \<Rightarrow>
                                         if has_componentWillUnmount (icls inst)
                                         then emit (ComponentWillUnmount i) s2 else s2
                                     | None \<Rightarrow> s2)
                           in s3\<lparr>mountedComponents := (mountedComponents s3)(vid vnode := None)\<rparr>)
                      | None \<Rightarrow> s)
                else s)
      in dbind (each (\<lambda>c s4. case c of
                               CNode v \<Rightarrow> dbind (rec (DUnmount v) s4) (\<lambda>_ s5. DOk () s5)
                             | CPrim _ \<Rightarrow> DOk () s4)
                  (vchildren vnode) s1) (\<lambda>_ s6. DOk VNone s6))"

text \<open>
  The key maps that \<^verbatim>\<open>updateChildren\<close> builds first: for every child that is a \<^verbatim>\<open>VNode\<close> with
  a key, the key with the node and its index. The method does not read them afterwards.
\<close>

fun build_key_map :: "nat \<Rightarrow> child list \<Rightarrow> (pv \<times> vnode \<times> nat) list" where
  "build_key_map index [] = []"
| "build_key_map index (CNode v # cs) =
     (if truthy (vkey v) then (vkey v, v, index) # build_key_map (index + 1) cs
      else build_key_map (index + 1) cs)"
| "build_key_map index (CPrim p # cs) = build_key_map (index + 1) cs"

definition nth_opt :: "'a list \<Rightarrow> nat \<Rightarrow> 'a option" where
  "nth_opt xs i = (if i < length xs then Some (xs ! i) else None)"

text \<open>One round of the loop of \<^verbatim>\<open>updateChildren\<close>, for one index.\<close>

definition update_child ::
  "(dcall \<Rightarrow> dstate \<Rightarrow> dval dres) \<Rightarrow> nat \<Rightarrow> child option \<Rightarrow> child option \<Rightarrow> nat option
     \<Rightarrow> dstate \<Rightarrow> unit dres" where
  "update_child rec element oldChild newChild childNode s =
     (if \<not> child_truthy oldChild \<and> child_truthy newChild
      then with_handle (child_element rec (the newChild) s)
             (\<lambda>childElement s1. DOk () (appendChild element childElement s1))
      else if child_truthy oldChild \<and> \<not> child_truthy newChild
      then dbind (case oldChild of
                    Some (CNode v) \<Rightarrow> rec (DUnmount v) s
                  | _ \<Rightarrow> DOk VNone s) (\<lambda>_ s1.
             case childNode of
               Some n \<Rightarrow> removeChild element n s1
             | None \<Rightarrow> DOk () s1)
      else if child_truthy oldChild \<and> child_truthy newChild
      then (case (the oldChild, the newChild) of
              (CNode a, CNode b) \<Rightarrow>
                dbind (rec (DPatch (Some element) (Some a) (Some b)) s) (\<lambda>_ s1. DOk () s1)
            | (CPrim a, CPrim b) \<Rightarrow>
                (if \<not> strict_eq a b \<and> childNode \<noteq> None
                 then DOk () (setTextContent (the childNode) (PStr (to_string b)) s)
                 else DOk () s)
            | (old, new) \<Rightarrow>
                with_handle (child_element rec new s) (\<lambda>newElement s1.
                dbind (case old of
                         CNode v \<Rightarrow> rec (DUnmount v) s1
                       | _ \<Rightarrow> DOk VNone s1) (\<lambda>_ s2.
                  case childNode of
                    Some n \<Rightarrow> replaceChild element newElement n s2
                  | None \<Rightarrow> DOk () s2)))
      else DOk () s)"

definition updateChildren ::
  "(dcall \<Rightarrow> dstate \<Rightarrow> dval dres) \<Rightarrow> nat option \<Rightarrow> child list \<Rightarrow> child list \<Rightarrow> dstate
     \<Rightarrow> unit dres" where
  "updateChildren rec element oldChildren newChildren s =
     (let oldChildrenMap = build_key_map 0 oldChildren;
          newChildrenMap = build_key_map 0 newChildren;
          maxLength = max (length oldChildren) (length newChildren)
      in case element of
           None \<Rightarrow> DErr TypeErrorD s
         | Some el \<Rightarrow>
             (let nodeList = childNodes (the_node s el)
              in each (\<lambda>i s1. update_child rec el (nth_opt oldChildren i) (nth_opt newChildren i)
                                 (nth_opt nodeList i) s1) [0..<maxLength] s))"

definition updateComponent ::
  "(dcall \<Rightarrow> dstate \<Rightarrow> dval dres) \<Rightarrow> vnode \<Rightarrow> vnode \<Rightarrow> dstate \<Rightarrow> dval dres" where
  "updateComponent rec oldVNode newVNode s =
     (case (case mountedComponents s (vid oldVNode) of
              Some i \<Rightarrow> map_option (Pair i) (instances s i)
            | None \<Rightarrow> None) of
        None \<Rightarrow> createComponent rec newVNode s
      | Some (i, inst) \<Rightarrow>
          (let s1 = emit (Render i) (emit (Hook ''beforeUpdate'' i) s);
               newRendered = render (icls inst) (vprops newVNode) (renders inst);
               s2 = s1\<lparr>instances := (instances s1)(i \<mapsto> inst\<lparr>iprops := vprops newVNode,
                                                               renders := renders inst + 1\<rparr>)\<rparr>
           in dbind (rec (DPatch None (ivnode inst) (Some newRendered)) s2) (\<lambda>patched s3.
                case patched of
                  VTree t \<Rightarrow>
                    DOk (VTree (Some newVNode))
                      (emit (Hook ''afterUpdate'' i)
                         (s3\<lparr>instances := (instances s3)
                                (i \<mapsto> (case instances s3 i of
                                          Some x \<Rightarrow> x\<lparr>ivnode := t\<rparr>
                                        | None \<Rightarrow> inst\<lparr>ivnode := t\<rparr>)),
                             velement := (velement s3)(vid newVNode := velement s3 (vid oldVNode)),
                             mountedComponents :=
                               (mountedComponents s3)(vid oldVNode := None, vid newVNode \<mapsto> i)\<rparr>))
                | _ \<Rightarrow> DUnmodelled)))"

definition patch ::
  "(dcall \<Rightarrow> dstate \<Rightarrow> dval dres) \<Rightarrow> nat option \<Rightarrow> vnode option \<Rightarrow> vnode option \<Rightarrow> dstate
     \<Rightarrow> dval dres" where
  "patch rec container oldVNode newVNode s =
     (case oldVNode of
        None \<Rightarrow>
          (case newVNode of
             None \<Rightarrow> DErr TypeErrorD s
           | Some new \<Rightarrow>
               with_handle (rec (DCreate new) s) (\<lambda>element s1.
                 case container of
                   None \<Rightarrow> DErr TypeErrorD s1
                 | Some c \<Rightarrow> DOk (VTree (Some new)) (appendChild c element s1)))
      | Some old \<Rightarrow>
          (case newVNode of
             None \<Rightarrow>
               dbind (rec (DUnmount old) s) (\<lambda>_ s1.
                 case (case velement s1 (vid old) of
                         Some e \<Rightarrow> map_option (Pair e) (parentNode (the_node s1 e))
                       | None \<Rightarrow> None) of
                   Some (e, p) \<Rightarrow> dbind (removeChild p e s1) (\<lambda>_ s2. DOk (VTree None) s2)
                 | None \<Rightarrow> DOk (VTree None) s1)
           | Some new \<Rightarrow>
               (if isDifferentNodeType old new
                then with_handle (rec (DCreate new) s) (\<lambda>newElement s1.
                       dbind (case (case velement s1 (vid old) of
                                      Some e \<Rightarrow> map_option (Pair e) (parentNode (the_node s1 e))
                                    | None \<Rightarrow> None) of
                                Some (e, p) \<Rightarrow> replaceChild p newElement e s1
                              | None \<Rightarrow> DOk () s1) (\<lambda>_ s2.
                       dbind (rec (DUnmount old) s2) (\<lambda>_ s3. DOk (VTree (Some new)) s3)))
                else if isText new
                then (if \<not> child_strict_eq (first_child old) (first_child new)
                      then (case velement s (vid old) of
                              None \<Rightarrow> DErr TypeErrorD s
                            | Some e \<Rightarrow>
                                DOk (VTree (Some new))
                                  (setTextContent e (child_value (first_child new)) s))
                      else DOk (VTree (Some new)) s)
                else if isComponent new then updateComponent rec old new s
                else (let element = velement s (vid old);
                          s1 = s\<lparr>velement := (velement s)(vid new := element)\<rparr>
                      in dbind (updateElement element (vprops old) (vprops new) s1) (\<lambda>_ s2.
                         dbind (updateChildren rec element (vchildren old) (vchildren new) s2)
                           (\<lambda>_ s3. DOk (VTree (Some new)) s3))))))"

fun ddispatch :: "(dcall \<Rightarrow> dstate \<Rightarrow> dval dres) \<Rightarrow> dcall \<Rightarrow> dstate \<Rightarrow> dval dres" where
  "ddispatch rec (DCreate v) s = createElement rec v s"
| "ddispatch rec (DPatch container old new) s = patch rec container old new s"
| "ddispatch rec (DUnmount v) s = unmount rec v s"

primrec drun :: "nat \<Rightarrow> dcall \<Rightarrow> dstate \<Rightarrow> dval dres" where
  "drun 0 c s = DFuel"
| "drun (Suc n) c s = ddispatch (drun n) c s"

fun dstate_of :: "'a dres \<Rightarrow> dstate option" where
  "dstate_of (DOk a s) = Some s"
| "dstate_of (DErr e s) = Some s"
| "dstate_of _ = None"

text \<open>
  Concrete render targets and trees. \<open>empty_target\<close> has one element, the container with
  handle 0, and the component class \<^verbatim>\<open>Widget\<close>, which defines \<^verbatim>\<open>componentWillUnmount\<close> and
  whose \<^verbatim>\<open>render\<close> returns a \<^verbatim>\<open>div\<close> showing the number of earlier calls. \<open>keyed\<close> is
  \<^verbatim>\<open>h(tag, {key: k}, t)\<close>. \<open>list_old\<close> and \<open>list_new\<close> are two renderings of a list of three
  keyed children of different tags, the second in the order C, A, B; \<open>items_old\<close> and
  \<open>items_new\<close> are the same with three \<^verbatim>\<open>li\<close> children.
\<close>

definition widget :: cls where
  "widget = \<lparr>render = (\<lambda>ps k. VNode (100 + k) ''div'' [] [CPrim (PNum (int k))]),
              has_componentWillUnmount = True\<rparr>"

definition empty_target :: dstate where
  "empty_target =
     \<lparr>nodes = (\<lambda>_. None)(0 \<mapsto> \<lparr>kind = ElementNode ''div'', parentNode = None, childNodes = []\<rparr>),
      next_handle = 1, velement = (\<lambda>_. None), mountedComponents = (\<lambda>_. None),
      instances = (\<lambda>_. None), next_instance = 0,
      getComponent = (\<lambda>name. if name = ''Widget'' then Some widget else None),
      in_element = (\<lambda>key. key \<in> set [''id'', ''title'', ''value'', ''checked'', ''href'']),
      log = []\<rparr>"

definition keyed :: "nat \<Rightarrow> string \<Rightarrow> int \<Rightarrow> string \<Rightarrow> vnode" where
  "keyed i tag k t = VNode i tag [(''key'', PNum k)] [CPrim (PStr t)]"

definition list_old :: vnode where
  "list_old = VNode 10 ''ul'' []
     [CNode (keyed 11 ''div'' 1 ''A''), CNode (keyed 12 ''span'' 2 ''B''),
      CNode (keyed 13 ''p'' 3 ''C'')]"

definition list_new :: vnode where
  "list_new = VNode 20 ''ul'' []
     [CNode (keyed 21 ''p'' 3 ''C''), CNode (keyed 22 ''div'' 1 ''A''),
      CNode (keyed 23 ''span'' 2 ''B'')]"

definition items_old :: vnode where
  "items_old = VNode 10 ''ul'' []
     [CNode (keyed 11 ''li'' 1 ''A''), CNode (keyed 12 ''li'' 2 ''B''),
      CNode (keyed 13 ''li'' 3 ''C'')]"

definition items_new :: vnode where
  "items_new = VNode 20 ''ul'' []
     [CNode (keyed 21 ''li'' 3 ''C''), CNode (keyed 22 ''li'' 1 ''A''),
      CNode (keyed 23 ''li'' 2 ''B'')]"

text \<open>
  \<open>mounted v\<close> is the target after the first \<^verbatim>\<open>patch(container, null, v)\<close>, and
  \<open>calls_of_patch v w\<close> the calls that \<^verbatim>\<open>patch(container, v, w)\<close> then adds to the log.
\<close>

definition mounted :: "vnode \<Rightarrow> dstate" where
  "mounted v = (case dstate_of (drun 10 (DPatch (Some 0) None (Some v)) empty_target) of
                  Some s \<Rightarrow> s | None \<Rightarrow> empty_target)"

definition calls_of_patch :: "vnode \<Rightarrow> vnode option \<Rightarrow> dop list option" where
  "calls_of_patch v w =
     map_option (\<lambda>s. drop (length (log (mounted v))) (log s))
       (dstate_of (drun 10 (DPatch (Some 0) (Some v) w) (mounted v)))"

definition widget_node :: vnode where
  "widget_node = VNode 1 ''COMPONENT'' [(''componentType'', PStr ''Widget'')] []"

definition nan_node :: vnode where
  "nan_node = VNode 1 ''div'' [(''data-x'', PNaN)] []"

text \<open>
  Vocabulary for reconciling a tree against itself. A tree is \<open>plain\<close> when it has no
  Component node, no property whose value is \<^verbatim>\<open>NaN\<close> and no Text node whose content is
  \<^verbatim>\<open>NaN\<close>. \<open>depth\<close> is the number of levels of a tree. \<open>quietly s s'\<close>: the state \<open>s'\<close> is
  \<open>s\<close> with further log entries of which none is a call that changes the render target
  (they are calls of \<^verbatim>\<open>ref\<close> callbacks).
\<close>

fun plain :: "vnode \<Rightarrow> bool" and plain_child :: "child \<Rightarrow> bool" where
  "plain (VNode i t ps cs) =
     (t \<noteq> ''COMPONENT'' \<and> PNaN \<notin> snd ` set ps
      \<and> (t = ''TEXT'' \<longrightarrow> take 1 cs \<noteq> [CPrim PNaN])
      \<and> (\<forall>c\<in>set cs. plain_child c))"
| "plain_child (CNode v) = plain v"
| "plain_child (CPrim p) = True"

fun depth :: "vnode \<Rightarrow> nat" and child_depth :: "child \<Rightarrow> nat" where
  "depth (VNode i t ps cs) = Suc (fold max (map child_depth cs) 0)"
| "child_depth (CNode v) = depth v"
| "child_depth (CPrim p) = 0"

definition quietly :: "dstate \<Rightarrow> dstate \<Rightarrow> bool" where
  "quietly s s' = (\<exists>extra. s' = s\<lparr>log := log s @ extra\<rparr> \<and> (\<forall>x\<in>set extra. \<not> is_mutation x))"

text \<open>
  What is asked of a result: it is a value or an error in a state reached quietly; it
  may be the end of the budget only under the condition \<open>b\<close>.
\<close>

definition quiet_result :: "bool \<Rightarrow> dstate \<Rightarrow> 'a dres \<Rightarrow> bool" where
  "quiet_result b s r =
     (case r of
        DOk v s' \<Rightarrow> quietly s s'
      | DErr e s' \<Rightarrow> quietly s s'
      | DFuel \<Rightarrow> b
      | DUnmodelled \<Rightarrow> False)"

section \<open>Properties of the parser\<close>





text \<open>
  Right associativity of the power operator in \<^verbatim>\<open>exponentiationExpression\<close>:
  \<^verbatim>\<open>2^3^2\<close> and \<^verbatim>\<open>2**3**2\<close> both parse as \<^verbatim>\<open>2 ** (3 ** 2)\<close>.
\<close>

lemma power_right_associative:
  "result_node (expression 40 (new_parser tokens_pow_chain)) =
     Some (BinaryExpression ''**'' (Literal (VNum 2))
             (BinaryExpression ''**'' (Literal (VNum 3)) (Literal (VNum 2))))"
  "result_node (expression 40 (new_parser tokens_starstar_chain)) =
     Some (BinaryExpression ''**'' (Literal (VNum 2))
             (BinaryExpression ''**'' (Literal (VNum 3)) (Literal (VNum 2))))"
  by code_simp+

text \<open>
  C6. \<^verbatim>\<open>exponentiationExpression\<close> parses its left operand with \<^verbatim>\<open>unaryExpression\<close>, which
  consumes the minus sign and its operand before the power operator is seen; there is no
  special case. The source \<^verbatim>\<open>-2^2\<close> therefore parses as the power \<^verbatim>\<open>(-2) ** 2\<close>, a
  \<^verbatim>\<open>BinaryExpression\<close> whose left operand is the negation, and not as the negation of
  \<^verbatim>\<open>2 ** 2\<close>.
\<close>

theorem neg_pow_parses_as_power_of_negation:
  "result_node (expression 40 (new_parser tokens_neg_pow)) =
     Some (BinaryExpression ''**'' (UnaryExpression ''-'' (Literal (VNum 2))) (Literal (VNum 2)))"
  by code_simp



section \<open>Properties of the compiled numeric for loop\<close>

lemma compile_literal_print: "compileLiteral v = print_expr (tr_literal v)"
  by (cases v) simp_all

lemma compile_expression_print: "compileExpression e = print_expr (tr_expr e)"
  by (induction e)
     (auto simp: compile_literal_print compileIdentifier_def Let_def cong: map_cong)

lemma show_int_1: "show_int 1 = ''1''"
  by code_simp

lemma compile_body_print:
  "(\<And>s. s \<in> set b \<Longrightarrow> compileStatement s = print_stmt (tr_stmt s)) \<Longrightarrow>
   join sep (map compileStatement b) = join sep (map print_stmt (map tr_stmt b))"
  by (simp add: comp_def cong: map_cong)

lemma compile_elseif_print:
  "(\<And>c b s. (c, b) \<in> set eis \<Longrightarrow> s \<in> set b \<Longrightarrow> compileStatement s = print_stmt (tr_stmt s)) \<Longrightarrow>
   concat (map (\<lambda>(c, b). '' else if ('' @ compileExpression c @ '') {'' @ nl
                            @ join nl (map compileStatement b) @ nl @ ''}'') eis)
   = concat (map (\<lambda>(c, b). '' else if ('' @ print_expr c @ '') {'' @ nl
                            @ join nl (map print_stmt b) @ nl @ ''}'')
               (map (\<lambda>(c, b). (tr_expr c, map tr_stmt b)) eis))"
proof (induction eis)
  case Nil
  show ?case by simp
next
  case (Cons x eis)
  obtain c b where x: "x = (c, b)" by (cases x)
  have b: "join nl (map compileStatement b) = join nl (map print_stmt (map tr_stmt b))"
    using Cons.prems [of c b] by (intro compile_body_print) (simp add: x)
  have "concat (map (\<lambda>(c, b). '' else if ('' @ compileExpression c @ '') {'' @ nl
                            @ join nl (map compileStatement b) @ nl @ ''}'') eis)
   = concat (map (\<lambda>(c, b). '' else if ('' @ print_expr c @ '') {'' @ nl
                            @ join nl (map print_stmt b) @ nl @ ''}'')
               (map (\<lambda>(c, b). (tr_expr c, map tr_stmt b)) eis))"
    using Cons.prems by (intro Cons.IH) auto
  then show ?case using b by (simp add: x compile_expression_print)
qed

lemma compile_statement_print: "compileStatement s = print_stmt (tr_stmt s)"
proof (induction s)
  case (SIf c t eis e)
  have t: "join nl (map compileStatement t) = join nl (map print_stmt (map tr_stmt t))"
    using SIf.IH(1) by (intro compile_body_print) simp
  have eis: "concat (map (\<lambda>(c, b). '' else if ('' @ compileExpression c @ '') {'' @ nl
                            @ join nl (map compileStatement b) @ nl @ ''}'') eis)
   = concat (map (\<lambda>(c, b). '' else if ('' @ print_expr c @ '') {'' @ nl
                            @ join nl (map print_stmt b) @ nl @ ''}'')
               (map (\<lambda>(c, b). (tr_expr c, map tr_stmt b)) eis))"
    using SIf.IH(2) by (intro compile_elseif_print) fastforce
  have e: "(case e of None \<Rightarrow> [] | Some b \<Rightarrow> '' else {'' @ nl @ join nl (map compileStatement b) @ nl @ ''}'')
     = (case map_option (map tr_stmt) e of None \<Rightarrow> [] | Some b \<Rightarrow> '' else {'' @ nl @ join nl (map print_stmt b) @ nl @ ''}'')"
  proof (cases e)
    case None
    then show ?thesis by simp
  next
    case (Some b)
    have "join nl (map compileStatement b) = join nl (map print_stmt (map tr_stmt b))"
      using SIf.IH(3) Some by (intro compile_body_print) simp
    then show ?thesis using Some by simp
  qed
  show ?case
    by (simp only: compileStatement.simps tr_stmt.simps print_stmt.simps)
       (simp only: t eis e, simp only: compile_expression_print)
next
  case (SLocalDeclaration name init)
  then show ?case by (cases init) (simp_all add: compile_expression_print)
next
  case (SNumericFor variable start stop step body)
  then show ?case
    by (cases step) (auto simp: compile_expression_print show_int_1 comp_def cong: map_cong)
next
  case (SReturn v)
  then show ?case by (cases v) (simp_all add: compile_expression_print)
qed (auto simp: compile_expression_print comp_def cong: map_cong)

lemma restore_set_var: "restore_var outer x (set_var x v outer) = outer"
  by (induction outer) (auto simp: restore_var_def split: option.splits)

lemma for_sum_run: "exec 30 (tr_stmt for_sum) \<lparr>vars = [(''sum'', NumV s)], iterations = 0\<rparr>
   = JOk (Normal, \<lparr>vars = [(''sum'', NumV (s + 15))], iterations = 5\<rparr>)"
  by (simp add: for_sum_def eval_nat_numeral builtin_tags_def restore_var_def)

lemma map_of_set_var: "map_of (set_var x v xs) x = Some v"
  by (induction xs) auto

lemma for_down_run: "exec (Suc (Suc n)) (tr_stmt (for_down body)) st = JOk (Normal, st)"
  by (simp add: for_down_def map_of_set_var restore_set_var)

text \<open>
  C3. The text compiled from a numeric \<^verbatim>\<open>for\<close> statement is the three-part loop
  \<^verbatim>\<open>for (let v = start; v <= end; v += step) { body }\<close>, with the step \<^verbatim>\<open>1\<close> when the
  statement gives none and the given step otherwise. For \<^verbatim>\<open>for i = 1, 5 do sum = sum + i end\<close>
  the text is as shown, and running it adds 15 to \<^verbatim>\<open>sum\<close> in five rounds (so \<^verbatim>\<open>sum == 15\<close>
  from \<^verbatim>\<open>sum == 0\<close>). Running the loop compiled from \<^verbatim>\<open>for i = 10, 1, -2 do ... end\<close> enters
  the body zero times, whatever the body is: the state, with its count of loop rounds, is
  unchanged.
\<close>

theorem numeric_for_loop_semantics:
  "compileStatement (SNumericFor variable start stop step body) =
     print_stmt (JFor variable (tr_expr start) (tr_expr stop)
                   (case step of None \<Rightarrow> JNum 1 | Some e \<Rightarrow> tr_expr e) (map tr_stmt body))
   \<and> compileStatement for_sum =
       nl @ ''for (let i = 1; '' @ nl @ ''     i <= 5; '' @ nl @ ''     i += 1) {'' @ nl
         @ ''    sum = (sum + i);'' @ nl @ ''}'' @ nl
   \<and> exec 30 (tr_stmt for_sum) \<lparr>vars = [(''sum'', NumV s)], iterations = 0\<rparr> =
       JOk (Normal, \<lparr>vars = [(''sum'', NumV (s + 15))], iterations = 5\<rparr>)
   \<and> compileStatement (for_down []) =
       nl @ ''for (let i = 10; '' @ nl @ ''     i <= 1; '' @ nl @ ''     i += -(2)) {'' @ nl
         @ ''    '' @ nl @ ''}'' @ nl
   \<and> exec (Suc (Suc n)) (tr_stmt (for_down body')) st = JOk (Normal, st)"
proof (intro conjI)
  show "compileStatement (SNumericFor variable start stop step body) =
     print_stmt (JFor variable (tr_expr start) (tr_expr stop)
                   (case step of None \<Rightarrow> JNum 1 | Some e \<Rightarrow> tr_expr e) (map tr_stmt body))"
    using compile_statement_print [of "SNumericFor variable start stop step body"] by simp
  show "compileStatement for_sum =
       nl @ ''for (let i = 1; '' @ nl @ ''     i <= 5; '' @ nl @ ''     i += 1) {'' @ nl
         @ ''    sum = (sum + i);'' @ nl @ ''}'' @ nl"
    by code_simp
  show "exec 30 (tr_stmt for_sum) \<lparr>vars = [(''sum'', NumV s)], iterations = 0\<rparr> =
       JOk (Normal, \<lparr>vars = [(''sum'', NumV (s + 15))], iterations = 5\<rparr>)"
    by (rule for_sum_run)
  show "compileStatement (for_down []) =
       nl @ ''for (let i = 10; '' @ nl @ ''     i <= 1; '' @ nl @ ''     i += -(2)) {'' @ nl
         @ ''    '' @ nl @ ''}'' @ nl"
    by code_simp
  show "exec (Suc (Suc n)) (tr_stmt (for_down body')) st = JOk (Normal, st)"
    by (rule for_down_run)
qed

section \<open>Properties of the optimization passes\<close>


section \<open>Properties of the reactive system\<close>

lemma eff_track:
  "eff (track t k s) x =
     (if currentEffect s = Some x \<and> x \<notin> set (targetMap s (t, k))
      then (eff s x)\<lparr>deps := deps (eff s x) @ [(t, k)]\<rparr> else eff s x)"
  by (auto simp: track_def eff_def Let_def split: option.splits)

lemma track_static [simp]: "static (track t k s) = static s"
  by (rule ext) (simp add: static_def eff_track)

lemma track_fields [simp]:
  "calls (track t k s) = calls s" "currentEffect (track t k s) = currentEffect s"
  "effectStack (track t k s) = effectStack s" "queue (track t k s) = queue s"
  "isFlushPending (track t k s) = isFlushPending s" "heap (track t k s) = heap s"
  "computeds (track t k s) = computeds s"
  by (simp_all add: track_def Let_def split: option.splits)

lemma track_targets:
  "targetMap (track t k s) y =
     (case currentEffect s of
        None \<Rightarrow> targetMap s y
      | Some e \<Rightarrow> if y = (t, k) \<and> e \<notin> set (targetMap s y) then targetMap s y @ [e]
                  else targetMap s y)"
  by (auto simp: track_def Let_def split: option.splits)

lemma eff_cleanup:
  "eff (cleanup e s) x = (if x = e then (eff s x)\<lparr>deps := []\<rparr> else eff s x)"
  by (auto simp: cleanup_def eff_def split: option.splits)

lemma cleanup_static [simp]: "static (cleanup e s) = static s"
  by (rule ext) (simp add: static_def eff_cleanup)

lemma cleanup_fields [simp]:
  "calls (cleanup e s) = calls s" "currentEffect (cleanup e s) = currentEffect s"
  "effectStack (cleanup e s) = effectStack s" "queue (cleanup e s) = queue s"
  "isFlushPending (cleanup e s) = isFlushPending s" "heap (cleanup e s) = heap s"
  "computeds (cleanup e s) = computeds s"
  by (simp_all add: cleanup_def)

lemma fold_remove:
  "fold (\<lambda>d m. m(d := removeAll e (m d))) ds m y =
     (if y \<in> set ds then removeAll e (m y) else m y)"
  by (induction ds arbitrary: m) auto

lemma cleanup_targets:
  "targetMap (cleanup e s) y =
     (if y \<in> set (deps (eff s e)) then removeAll e (targetMap s y) else targetMap s y)"
  by (simp add: cleanup_def fold_remove)


lemma static_update [simp]:
  "static (s\<lparr>calls := c\<rparr>) = static s"
  "static (s\<lparr>currentEffect := ce\<rparr>) = static s"
  "static (s\<lparr>effectStack := st\<rparr>) = static s"
  "static (s\<lparr>heap := h\<rparr>) = static s"
  by (rule ext, simp add: static_def eff_def)+

lemma run_reads:
  "reads_within d p \<Longrightarrow> d < n \<Longrightarrow>
   \<exists>v s'. run n (RunProg p) s = ROk v s' \<and> calls s' = calls s \<and> unchanged s s'"
proof (induction d p arbitrary: n s rule: reads_within.induct)
  case (1 d v)
  then obtain m where "n = Suc m" by (cases n) auto
  then show ?case by (simp add: run_prog_def unchanged_def)
next
  case (2 d t key k)
  then obtain m where n: "n = Suc m" by (cases n) auto
  obtain v s1 where g: "proxy_get t key s = (v, s1)" by (cases "proxy_get t key s")
  have s1: "calls s1 = calls s" "unchanged s s1"
    using g by (auto simp: proxy_get_def unchanged_def split: if_splits)
  have "reads_within d (k v)" using 2(2) by simp
  from 2(1) [OF this, of m s1] 2(3) n obtain w s' where
    "run m (RunProg (k v)) s1 = ROk w s'" "calls s' = calls s1" "unchanged s1 s'" by auto
  then show ?case using n g s1 by (auto simp: run_prog_def unchanged_def)
qed simp_all

text \<open>The dependency sets after a program that only reads: the running effect has joined
  the set of every property read.\<close>

lemma run_reads_targets:
  "reads_within d p \<Longrightarrow> d < n \<Longrightarrow> run n (RunProg p) s = ROk v s' \<Longrightarrow>
   targetMap s' y =
     (case currentEffect s of
        None \<Rightarrow> targetMap s y
      | Some e \<Rightarrow>
          if y \<in> (\<lambda>(t, k). (Plain t, k)) ` set (reads_of p (heap s)) \<and> e \<notin> set (targetMap s y)
          then targetMap s y @ [e] else targetMap s y)"
proof (induction d p arbitrary: n s rule: reads_within.induct)
  case (1 d w)
  then obtain m where "n = Suc m" by (cases n) auto
  with 1 show ?case by (auto simp: run_prog_def split: option.splits)
next
  case (2 d t key k)
  then obtain m where n: "n = Suc m" by (cases n) auto
  obtain w s1 where g: "proxy_get t key s = (w, s1)" by (cases "proxy_get t key s")
  have r: "run m (RunProg (k w)) s1 = ROk v s'"
    using 2(4) g by (simp add: n run_prog_def)
  have "reads_within d (k w)" using 2(2) by simp
  from 2(1) [OF this _ r] 2(3) have
    ih: "targetMap s' y =
     (case currentEffect s1 of
        None \<Rightarrow> targetMap s1 y
      | Some e \<Rightarrow>
          if y \<in> (\<lambda>(t, k). (Plain t, k)) ` set (reads_of (k w) (heap s1)) \<and> e \<notin> set (targetMap s1 y)
          then targetMap s1 y @ [e] else targetMap s1 y)"
    by (simp add: n)
  show ?case
  proof (cases "key = ''__v_isReactive'' \<or> key = ''__v_raw''")
    case True
    then have a: "s1 = s" and b: "reads_of (Get t key k) (heap s) = reads_of (k w) (heap s)"
      using g by (auto simp: proxy_get_def)
    show ?thesis unfolding b using ih unfolding a .
  next
    case False
    then have s1: "s1 = track (Plain t) key s" and w: "w = heap s (t, key)"
      using g by (auto simp: proxy_get_def)
    have ro: "reads_of (Get t key k) (heap s) = (t, key) # reads_of (k w) (heap s)"
      using False w by simp
    show ?thesis
      unfolding ro ih s1
      by (cases "currentEffect s") (auto simp: track_targets)
  qed
qed simp_all

lemma settled_refl [simp]: "settled s s"
  by (simp add: settled_def)

lemma settled_trans: "settled s s1 \<Longrightarrow> settled s1 s2 \<Longrightarrow> settled s s2"
  by (simp add: settled_def)

lemma kept_refl [simp]: "kept s s"
  by (simp add: kept_def)

lemma kept_trans: "kept s s1 \<Longrightarrow> kept s1 s2 \<Longrightarrow> kept s s2"
  using settled_trans by (auto simp: kept_def)

lemma static_fields:
  "static s' = static s \<Longrightarrow> active (eff s' e) = active (eff s e)"
  "static s' = static s \<Longrightarrow> is_computed (eff s' e) = is_computed (eff s e)"
  "static s' = static s \<Longrightarrow> scheduler (eff s' e) = scheduler (eff s e)"
  "static s' = static s \<Longrightarrow> fn (eff s' e) = fn (eff s e)"
  by (drule fun_cong [of _ _ e], simp add: static_def)+

lemma quiet_settled:
  assumes "settled s s'" and "quiet d s e"
  shows "quiet d s' e"
proof -
  from assms(1) have st: "static s' e = static s e"
    and w: "\<And>c. targetMap s (ComputedWrapper c, ''value'') = []
              \<Longrightarrow> targetMap s' (ComputedWrapper c, ''value'') = []"
    by (simp_all add: settled_def)
  show ?thesis
  proof (cases "scheduler (eff s e)")
    case None
    with st assms(2) show ?thesis by (auto simp: quiet_def static_def)
  next
    case (Some sch)
    show ?thesis
    proof (cases sch)
      case (ComputedScheduler c)
      with Some assms(2) have "targetMap s (ComputedWrapper c, ''value'') = []"
        by (simp add: quiet_def)
      from w [OF this] show ?thesis using st Some ComputedScheduler
        by (auto simp: quiet_def static_def)
    next
      case (UserScheduler p)
      with st Some assms(2) show ?thesis by (auto simp: quiet_def static_def)
    qed
  qed
qed

lemma expected_call_static:
  assumes "static s' = static s"
  shows "expected_call s' e = expected_call s e"
proof -
  from assms have "static s' e = static s e" by simp
  then show ?thesis by (auto simp: expected_call_def static_def split: option.splits)
qed

lemma mark_dirty_static:
  assumes "static s' = static s"
  shows "mark_dirty s' e = mark_dirty s e"
proof -
  from assms have "static s' e = static s e" by simp
  then have "scheduler (eff s' e) = scheduler (eff s e)" by (simp add: static_def)
  then show ?thesis by (intro ext) (simp add: mark_dirty_def)
qed

text \<open>
  The call of an active effect whose function only reads: the dependency sets afterwards
  are those that \<^verbatim>\<open>cleanup\<close> left, with the effect added to the set of every property read.
\<close>

lemma call_effect_reads:
  assumes "active (eff s e)" and "reads_within d (fn (eff s e))" and "Suc d < n"
  shows "\<exists>v s'. run n (CallEffect e) s = ROk v s' \<and> calls s' = calls s @ [RanBody e]
           \<and> static s' = static s \<and> heap s' = heap s \<and> queue s' = queue s
           \<and> isFlushPending s' = isFlushPending s \<and> computeds s' = computeds s
           \<and> currentEffect s' = (if effectStack s = [] then None else Some (last (effectStack s)))
           \<and> (\<forall>y. targetMap s' y =
                 (if y \<in> (\<lambda>(t, k). (Plain t, k)) ` set (reads_of (fn (eff s e)) (heap s))
                     \<and> e \<notin> set (targetMap (cleanup e s) y)
                  then targetMap (cleanup e s) y @ [e] else targetMap (cleanup e s) y))"
proof -
  from assms(3) obtain m where n: "n = Suc m" and m: "d < m" by (cases n) auto
  let ?s1 = "cleanup e s"
  let ?s2 = "?s1\<lparr>currentEffect := Some e, effectStack := effectStack ?s1 @ [e],
                  calls := calls ?s1 @ [RanBody e]\<rparr>"
  have st: "static ?s2 = static s" by simp
  have f: "fn (eff ?s2 e) = fn (eff s e)" using st by (rule static_fields)
  from run_reads [OF assms(2) m, of ?s2] obtain v s3 where
    r: "run m (RunProg (fn (eff s e))) ?s2 = ROk v s3" "calls s3 = calls ?s2" "unchanged ?s2 s3"
    by auto
  have t: "\<And>y. targetMap s3 y =
                 (if y \<in> (\<lambda>(t, k). (Plain t, k)) ` set (reads_of (fn (eff s e)) (heap s))
                     \<and> e \<notin> set (targetMap ?s1 y)
                  then targetMap ?s1 y @ [e] else targetMap ?s1 y)"
    using run_reads_targets [OF assms(2) m r(1)] by simp
  let ?s4 = "s3\<lparr>effectStack := butlast (effectStack s3),
                 currentEffect := (if butlast (effectStack s3) = [] then None
                                   else Some (last (butlast (effectStack s3))))\<rparr>"
  have run: "run n (CallEffect e) s = ROk v ?s4"
    using assms(1) r(1) f by (simp add: n effect_call_def Let_def)
  have es: "effectStack s3 = effectStack s @ [e]" using r(3) by (simp add: unchanged_def)
  have "static ?s4 = static s" using r(3) st by (simp add: unchanged_def)
  moreover have "heap ?s4 = heap s" "queue ?s4 = queue s" "isFlushPending ?s4 = isFlushPending s"
    "computeds ?s4 = computeds s" "calls ?s4 = calls s @ [RanBody e]"
    using r(2,3) by (simp_all add: unchanged_def)
  moreover have "currentEffect ?s4 = (if effectStack s = [] then None else Some (last (effectStack s)))"
    by (simp add: es)
  moreover have "\<forall>y. targetMap ?s4 y =
                 (if y \<in> (\<lambda>(t, k). (Plain t, k)) ` set (reads_of (fn (eff s e)) (heap s))
                     \<and> e \<notin> set (targetMap ?s1 y)
                  then targetMap ?s1 y @ [e] else targetMap ?s1 y)"
    using t by simp
  ultimately show ?thesis using run by blast
qed

lemma call_effect_quiet:
  assumes "active (eff s e)" and "reads_within d (fn (eff s e))" and "Suc d < n"
  shows "\<exists>v s'. run n (CallEffect e) s = ROk v s' \<and> calls s' = calls s @ [RanBody e] \<and> kept s s'"
proof -
  from call_effect_reads [OF assms] obtain v s' where
    r: "run n (CallEffect e) s = ROk v s'" "calls s' = calls s @ [RanBody e]"
       "static s' = static s" "heap s' = heap s" "queue s' = queue s"
       "isFlushPending s' = isFlushPending s" "computeds s' = computeds s"
    and t: "\<forall>y. targetMap s' y =
                 (if y \<in> (\<lambda>(t, k). (Plain t, k)) ` set (reads_of (fn (eff s e)) (heap s))
                     \<and> e \<notin> set (targetMap (cleanup e s) y)
                  then targetMap (cleanup e s) y @ [e] else targetMap (cleanup e s) y)"
    by blast
  have "targetMap s' (ComputedWrapper c, ''value'') = []"
    if "targetMap s (ComputedWrapper c, ''value'') = []" for c
  proof -
    have "(ComputedWrapper c, ''value'')
            \<notin> (\<lambda>(t, k). (Plain t, k)) ` set (reads_of (fn (eff s e)) (heap s))"
      by auto
    with t have "targetMap s' (ComputedWrapper c, ''value'')
                   = targetMap (cleanup e s) (ComputedWrapper c, ''value'')"
      by simp
    with that show ?thesis by (simp add: cleanup_targets)
  qed
  with r show ?thesis by (auto simp: kept_def settled_def)
qed

lemma call_effect_inactive:
  "\<not> active (eff s e) \<Longrightarrow> 0 < n \<Longrightarrow> run n (CallEffect e) s = ROk UndefinedV s"
  by (cases n) (simp_all add: effect_call_def)

text \<open>
  The call that \<^verbatim>\<open>trigger\<close> makes for one quiet subscriber, and for a list of them.
\<close>

lemma invoke_quiet:
  assumes "quiet d s e" and "Suc d < n"
  shows "\<exists>v s'. invoke (run n) e s = ROk v s' \<and> calls s' = calls s @ expected_call s e
           \<and> settled s s' \<and> computeds s' = mark_dirty s e (computeds s)"
proof (cases "scheduler (eff s e)")
  case None
  show ?thesis
  proof (cases "active (eff s e)")
    case True
    have "reads_within d (fn (eff s e))" using assms(1) None by (simp add: quiet_def)
    from call_effect_quiet [OF True this assms(2)] show ?thesis
      using None True by (auto simp: invoke_def expected_call_def kept_def mark_dirty_def)
  next
    case False
    then show ?thesis using None assms(2) call_effect_inactive [of s e n]
      by (simp add: invoke_def expected_call_def mark_dirty_def)
  qed
next
  case (Some sch)
  let ?s0 = "s\<lparr>calls := calls s @ [RanScheduler e]\<rparr>"
  show ?thesis
  proof (cases sch)
    case (UserScheduler p)
    then have p: "reads_within d p" using assms(1) Some by (simp add: quiet_def)
    from assms(2) have dn: "d < n" by simp
    from run_reads [OF p dn, of ?s0] obtain v s' where
      r: "run n (RunProg p) ?s0 = ROk v s'" "calls s' = calls ?s0" "unchanged ?s0 s'" by auto
    have "targetMap s' (ComputedWrapper c, ''value'') = targetMap s (ComputedWrapper c, ''value'')"
      for c
      using run_reads_targets [OF p dn r(1), of "(ComputedWrapper c, ''value'')"]
      by (auto split: option.splits)
    then have "settled s s'" using r(3) by (simp add: settled_def unchanged_def)
    moreover have "computeds s' = computeds s" using r(3) by (simp add: unchanged_def)
    ultimately show ?thesis using Some UserScheduler r
      by (simp add: invoke_def run_scheduler_def expected_call_def mark_dirty_def)
  next
    case (ComputedScheduler c)
    then have w: "targetMap s (ComputedWrapper c, ''value'') = []"
      using assms(1) Some by (simp add: quiet_def)
    from assms(2) obtain m where n: "n = Suc m" by (cases n) auto
    show ?thesis
    proof (cases "computeds s c")
      case None
      then show ?thesis using Some ComputedScheduler
        by (simp add: invoke_def run_scheduler_def expected_call_def mark_dirty_def settled_def)
    next
      case cell: (Some cl)
      show ?thesis
      proof (cases "dirty cl")
        case True
        then have "(computeds s)(c \<mapsto> cl\<lparr>dirty := True\<rparr>) = computeds s"
          using cell by (intro ext) simp
        then show ?thesis using Some ComputedScheduler cell True
          by (simp add: invoke_def run_scheduler_def expected_call_def mark_dirty_def settled_def)
      next
        case False
        let ?s1 = "?s0\<lparr>computeds := (computeds ?s0)(c \<mapsto> cl\<lparr>dirty := True\<rparr>)\<rparr>"
        have "trigger_order ?s1 (ComputedWrapper c) ''value'' = []"
          using w by (simp add: trigger_order_def)
        then have "run n (Trigger (ComputedWrapper c) ''value'') ?s1 = ROk UndefinedV ?s1"
          by (simp add: n trigger_def)
        moreover have "static ?s1 = static s"
          by (rule ext) (simp add: static_def eff_def)
        ultimately show ?thesis using Some ComputedScheduler cell False
          by (simp add: invoke_def run_scheduler_def expected_call_def mark_dirty_def settled_def)
      qed
    qed
  qed
qed

lemma invoke_all_quiet:
  assumes "\<forall>e\<in>set es. quiet d s e" and "Suc d < n"
  shows "\<exists>s'. invoke_all (run n) es s = ROk UndefinedV s'
              \<and> calls s' = calls s @ concat (map (expected_call s) es) \<and> settled s s'
              \<and> computeds s' = fold (mark_dirty s) es (computeds s)"
  using assms(1)
proof (induction es arbitrary: s)
  case Nil
  show ?case by simp
next
  case (Cons e es)
  from Cons.prems have "quiet d s e" by simp
  from invoke_quiet [OF this assms(2)] obtain v s1 where
    i: "invoke (run n) e s = ROk v s1" "calls s1 = calls s @ expected_call s e" "settled s s1"
       "computeds s1 = mark_dirty s e (computeds s)"
    by auto
  have st: "static s1 = static s" using i(3) by (simp add: settled_def)
  have "\<forall>x\<in>set es. quiet d s1 x" using Cons.prems quiet_settled [OF i(3)] by simp
  from Cons.IH [OF this] obtain s' where
    r: "invoke_all (run n) es s1 = ROk UndefinedV s'"
       "calls s' = calls s1 @ concat (map (expected_call s1) es)" "settled s1 s'"
       "computeds s' = fold (mark_dirty s1) es (computeds s1)"
    by auto
  have "expected_call s1 = expected_call s"
    by (rule ext) (rule expected_call_static [OF st])
  moreover have "mark_dirty s1 = mark_dirty s"
    by (rule ext) (rule mark_dirty_static [OF st])
  ultimately show ?case using i r settled_trans [OF i(3) r(3)] by simp
qed

lemma trigger_quiet:
  assumes "\<forall>e\<in>set (trigger_order s target key). quiet d s e" and "d + 2 < n"
  shows "\<exists>s'. run n (Trigger target key) s = ROk UndefinedV s'
              \<and> calls s' = calls s @ concat (map (expected_call s) (trigger_order s target key))
              \<and> settled s s'
              \<and> computeds s' = fold (mark_dirty s) (trigger_order s target key) (computeds s)"
proof -
  from assms(2) obtain m where n: "n = Suc m" and m: "Suc d < m" by (cases n) auto
  from invoke_all_quiet [OF assms(1) m] show ?thesis by (simp add: n trigger_def)
qed

lemma fold_mark_dirty:
  "fold (mark_dirty s) es m c =
     (if \<exists>e\<in>set es. scheduler (eff s e) = Some (ComputedScheduler c)
      then map_option (\<lambda>cl. cl\<lparr>dirty := True\<rparr>) (m c) else m c)"
proof (induction es arbitrary: m)
  case Nil
  show ?case by simp
next
  case (Cons e es)
  have 1: "mark_dirty s e m c =
             (if scheduler (eff s e) = Some (ComputedScheduler c)
              then map_option (\<lambda>cl. cl\<lparr>dirty := True\<rparr>) (m c) else m c)"
    by (auto simp: mark_dirty_def split: option.splits sched.splits)
  have 2: "map_option (\<lambda>cl. cl\<lparr>dirty := True\<rparr>) (map_option (\<lambda>cl. cl\<lparr>dirty := True\<rparr>) (m c))
             = map_option (\<lambda>cl. cl\<lparr>dirty := True\<rparr>) (m c)"
    by (cases "m c") simp_all
  show ?case unfolding fold_Cons comp_apply Cons.IH 1 using 2 by auto
qed

lemma trigger_order_set:
  "set (trigger_order s target key) = set (targetMap s (target, key)) - {e. currentEffect s = Some e}"
  by (auto simp: trigger_order_def Let_def)

lemma trigger_order_distinct:
  "distinct (targetMap s (target, key)) \<Longrightarrow> distinct (trigger_order s target key)"
  by (auto simp: trigger_order_def Let_def)

lemma trigger_order_split:
  "\<exists>cs ps. trigger_order s target key = cs @ ps
     \<and> (\<forall>e\<in>set cs. is_computed (eff s e)) \<and> (\<forall>e\<in>set ps. \<not> is_computed (eff s e))"
  by (rule exI [of _ "filter (\<lambda>e. is_computed (eff s e)) (filter (\<lambda>e. Some e \<noteq> currentEffect s) (targetMap s (target, key)))"],
      rule exI [of _ "filter (\<lambda>e. \<not> is_computed (eff s e)) (filter (\<lambda>e. Some e \<noteq> currentEffect s) (targetMap s (target, key)))"])
     (simp add: trigger_order_def Let_def)





lemma holds_rbind:
  assumes "holds P r" and "\<And>v s. P s \<Longrightarrow> holds P (f v s)"
  shows "holds P (rbind r f)"
  using assms by (cases r) (simp_all add: holds_def)

lemma holds_try:
  assumes "holds P r" and "\<And>s. P s \<Longrightarrow> P (g s)"
  shows "holds P (try_finally r g)"
  using assms by (cases r) (simp_all add: holds_def)

text \<open>
  A property of the dependency sets and of the \<^verbatim>\<open>deps\<close> of the effects that \<^verbatim>\<open>track\<close> for a
  reactive object and \<^verbatim>\<open>cleanup\<close> preserve is preserved by every call, whatever the user
  code does. So in every state that calls reach from a fresh system, no wrapper has a
  subscriber (the only calls of \<^verbatim>\<open>track\<close> for a wrapper are those that throw), and the
  subscriptions of every effect are recorded.
\<close>

lemma run_invariant:
  assumes tr: "\<And>t k s. P s \<Longrightarrow> P (track (Plain t) k s)"
    and cl: "\<And>e s. P s \<Longrightarrow> P (cleanup e s)"
    and up: "\<And>s s'. P s \<Longrightarrow> targetMap s' = targetMap s
               \<Longrightarrow> (\<forall>e. deps (eff s' e) = deps (eff s e)) \<Longrightarrow> P s'"
  shows "P s \<Longrightarrow> holds P (run n c s)"
proof (induction n arbitrary: c s)
  case 0
  show ?case by (simp add: holds_def)
next
  case (Suc n)
  note ih = Suc.IH
  have ok: "holds P (ROk v s')" if "P s'" for v :: jsv and s'
    using that by (simp add: holds_def)
  have thr: "holds P (RThrow x s' :: jsv rres)" if "P s'" for x s'
    using that by (simp add: holds_def)
  have inv: "holds P (invoke (run n) e s')" if p: "P s'" for e s'
  proof (cases "scheduler (eff s' e)")
    case None
    then show ?thesis using ih [OF p] by (simp add: invoke_def)
  next
    case (Some sch)
    let ?s0 = "s'\<lparr>calls := calls s' @ [RanScheduler e]\<rparr>"
    have p0: "P ?s0" by (rule up [OF p]) (simp_all add: eff_def)
    show ?thesis
    proof (cases sch)
      case (UserScheduler q)
      then show ?thesis using Some ih [OF p0] by (simp add: invoke_def run_scheduler_def)
    next
      case (ComputedScheduler c')
      show ?thesis
      proof (cases "computeds s' c'")
        case None
        then show ?thesis using Some ComputedScheduler ok [OF p0]
          by (simp add: invoke_def run_scheduler_def)
      next
        case cell: (Some cl)
        let ?s1 = "?s0\<lparr>computeds := (computeds ?s0)(c' \<mapsto> cl\<lparr>dirty := True\<rparr>)\<rparr>"
        have "P ?s1" by (rule up [OF p0]) (simp_all add: eff_def)
        from ih [OF this] show ?thesis using Some ComputedScheduler cell ok [OF p0]
          by (simp add: invoke_def run_scheduler_def Let_def)
      qed
    qed
  qed
  have all: "holds P (invoke_all (run n) es s')" if "P s'" for es s'
    using that
  proof (induction es arbitrary: s')
    case Nil
    then show ?case by (simp add: ok)
  next
    case (Cons e es)
    show ?case
      unfolding invoke_all.simps
      by (rule holds_rbind [OF inv [OF Cons.prems]]) (rule Cons.IH)
  qed
  show ?case
  proof (cases c)
    case (RunProg p)
    show ?thesis
    proof (cases p)
      case (Ret v)
      then show ?thesis using RunProg ok [OF Suc.prems] by (simp add: run_prog_def)
    next
      case (Get t key k)
      obtain v s1 where g: "proxy_get t key s = (v, s1)" by (cases "proxy_get t key s")
      then have "s1 = s \<or> s1 = track (Plain t) key s"
        by (auto simp: proxy_get_def split: if_splits)
      then have "P s1" using Suc.prems tr by auto
      from ih [OF this] show ?thesis using RunProg Get g by (simp add: run_prog_def)
    next
      case (Put t key v p')
      let ?s1 = "s\<lparr>heap := (heap s)((t, key) := v)\<rparr>"
      have p1: "P ?s1" by (rule up [OF Suc.prems]) (simp_all add: eff_def)
      have "holds P (proxy_set (run n) t key v s)"
        using ih [OF p1] ok [OF p1] by (simp add: proxy_set_def Let_def)
      then have "holds P (rbind (proxy_set (run n) t key v s) (\<lambda>_ s1. run n (RunProg p') s1))"
        by (rule holds_rbind) (rule ih)
      then show ?thesis using RunProg Put by (simp add: run_prog_def)
    next
      case (ReadComputed c' k)
      have "holds P (rbind (run n (ComputedGet c') s) (\<lambda>v s1. run n (RunProg (k v)) s1))"
        by (rule holds_rbind [OF ih [OF Suc.prems]]) (rule ih)
      then show ?thesis using RunProg ReadComputed by (simp add: run_prog_def)
    next
      case (ReadRef r k)
      have "ref_get r s = RThrow TypeError s"
        by (simp add: ref_get_def object_prototype_methods_def)
      then show ?thesis using RunProg ReadRef thr [OF Suc.prems] by (simp add: run_prog_def)
    next
      case (QueueJob job p')
      have "P (queueJob job s)"
        by (rule up [OF Suc.prems]) (simp_all add: queueJob_def queueFlush_def eff_def)
      from ih [OF this] show ?thesis using RunProg QueueJob by (simp add: run_prog_def)
    next
      case (Throw x)
      then show ?thesis using RunProg thr [OF Suc.prems] by (simp add: run_prog_def)
    qed
  next
    case (CallEffect e)
    show ?thesis
    proof (cases "active (eff s e)")
      case False
      then show ?thesis using CallEffect ok [OF Suc.prems] by (simp add: effect_call_def)
    next
      case True
      let ?s1 = "cleanup e s"
      let ?s2 = "?s1\<lparr>currentEffect := Some e, effectStack := effectStack ?s1 @ [e],
                      calls := calls ?s1 @ [RanBody e]\<rparr>"
      have p1: "P ?s1" by (rule cl [OF Suc.prems])
      have "P ?s2" by (rule up [OF p1]) (simp_all add: eff_def)
      have pop: "P (let stack = butlast (effectStack s3)
                     in s3\<lparr>effectStack := stack,
                            currentEffect := (if stack = [] then None else Some (last stack))\<rparr>)"
        if "P s3" for s3
        using that by (rule up) (simp_all add: Let_def eff_def)
      from ih [OF \<open>P ?s2\<close>] have "holds P (run n (RunProg (fn (eff ?s2 e))) ?s2)" .
      then have "holds P (try_finally (run n (RunProg (fn (eff ?s2 e))) ?s2)
                 (\<lambda>s3. let stack = butlast (effectStack s3)
                        in s3\<lparr>effectStack := stack,
                               currentEffect := (if stack = [] then None else Some (last stack))\<rparr>))"
        by (rule holds_try) (rule pop)
      then show ?thesis using CallEffect True by (simp add: effect_call_def Let_def)
    qed
  next
    case (Trigger target key)
    then show ?thesis using all [OF Suc.prems] by (simp add: trigger_def)
  next
    case (ComputedGet c')
    show ?thesis
    proof (cases "computeds s c'")
      case None
      then show ?thesis using ComputedGet thr [OF Suc.prems] by (simp add: computed_get_def)
    next
      case (Some cl)
      let ?first = "if dirty cl
                    then rbind (run n (CallEffect (runner cl)) s) (\<lambda>v s1.
                           ROk v (s1\<lparr>computeds :=
                                      (computeds s1)(c' \<mapsto> \<lparr>dirty = False, cached = v,
                                                            runner = runner cl\<rparr>)\<rparr>))
                    else ROk (cached cl) s"
      have upd: "P (s1\<lparr>computeds := m\<rparr>)" if "P s1" for s1 m
        using that by (rule up) (simp_all add: eff_def)
      have "holds P (rbind (run n (CallEffect (runner cl)) s) (\<lambda>v s1.
                           ROk v (s1\<lparr>computeds :=
                                      (computeds s1)(c' \<mapsto> \<lparr>dirty = False, cached = v,
                                                            runner = runner cl\<rparr>)\<rparr>)))"
        by (rule holds_rbind [OF ih [OF Suc.prems]]) (rule ok, rule upd)
      then have "holds P ?first" using ok [OF Suc.prems] by simp
      then have "holds P (rbind ?first (\<lambda>v s2. RThrow TypeError s2 :: jsv rres))"
        by (rule holds_rbind) (rule thr)
      then show ?thesis using ComputedGet Some
        by (simp add: computed_get_def object_prototype_methods_def)
    qed
  qed
qed

lemma wrappers_stay_free: "wrappers_free s \<Longrightarrow> holds wrappers_free (run n c s)"
proof (rule run_invariant)
  show "wrappers_free (track (Plain t) k s)" if "wrappers_free s" for t k s
    using that by (auto simp: wrappers_free_def track_targets split: option.splits)
  show "wrappers_free (cleanup e s)" if "wrappers_free s" for e s
    using that by (simp add: wrappers_free_def cleanup_targets)
  show "wrappers_free s'" if "wrappers_free s" "targetMap s' = targetMap s" for s s'
    using that by (simp add: wrappers_free_def)
qed

lemma subscriptions_stay_recorded: "all_recorded s \<Longrightarrow> holds all_recorded (run n c s)"
proof (rule run_invariant)
  show "all_recorded (track (Plain t) k s)" if "all_recorded s" for t k s
    using that unfolding all_recorded_def recorded_def
    by (auto simp: track_targets eff_track split: option.splits if_splits)
  show "all_recorded (cleanup e s)" if "all_recorded s" for e s
    using that unfolding all_recorded_def recorded_def
    by (auto simp: cleanup_targets eff_cleanup split: if_splits)
  show "all_recorded s'"
    if "all_recorded s" "targetMap s' = targetMap s" "\<forall>e. deps (eff s' e) = deps (eff s e)"
    for s s'
    using that by (simp add: all_recorded_def recorded_def)
qed

lemma new_system_invariants: "wrappers_free new_system" "all_recorded new_system"
  by (simp_all add: wrappers_free_def all_recorded_def recorded_def new_system_def)

lemma quiet_computed:
  "wrappers_free s \<Longrightarrow> scheduler (eff s e) = Some (ComputedScheduler c) \<Longrightarrow> quiet d s e"
  by (simp add: quiet_def wrappers_free_def)

lemma recorded_all: "all_recorded s \<Longrightarrow> recorded s e"
  by (simp add: all_recorded_def)

lemma reads_a_within: "reads_within 1 reads_a"
  by (simp add: reads_a_def)


lemma sys_effect_a_static: "static sys_effect_a 0 = (True, False, None, reads_a)"
proof -
  let ?s1 = "new_system\<lparr>effects := (effects new_system)(0 \<mapsto> \<lparr>active = True, deps = [],
               is_computed = False, scheduler = None, fn = reads_a\<rparr>)\<rparr>"
  have a: "active (eff ?s1 0)" "fn (eff ?s1 0) = reads_a" by (simp_all add: eff_def)
  have "reads_within 1 (fn (eff ?s1 0))" using reads_a_within by (simp add: a)
  from call_effect_quiet [OF a(1) this, of 10] obtain v s' where
    "run 10 (CallEffect 0) ?s1 = ROk v s'" "kept ?s1 s'" by auto
  then have "static sys_effect_a = static ?s1"
    by (simp add: sys_effect_a_def effect_def kept_def settled_def)
  then show ?thesis by (simp add: static_def eff_def)
qed





lemma sys_two_effects_facts:
  "targetMap sys_two_effects (Plain 0, ''a'') = [0, 1]"
  "currentEffect sys_two_effects = None"
  "trigger_order sys_two_effects (Plain 0) ''a'' = [1, 0]"
  "calls sys_two_effects = [RanBody 0, RanBody 1]"
  by code_simp+

lemma sys_two_effects_static:
  "static sys_two_effects 0 = (True, False, None, reads_a)"
  "static sys_two_effects 1 = (True, True, None, reads_a)"
proof -
  let ?s1 = "sys_effect_a\<lparr>effects := (effects sys_effect_a)(1 \<mapsto> \<lparr>active = True, deps = [],
               is_computed = True, scheduler = None, fn = reads_a\<rparr>)\<rparr>"
  have a: "active (eff ?s1 1)" "fn (eff ?s1 1) = reads_a" by (simp_all add: eff_def)
  have "reads_within 1 (fn (eff ?s1 1))" using reads_a_within a(2) by simp
  from call_effect_quiet [OF a(1) this, of 10] obtain v s' where
    "run 10 (CallEffect 1) ?s1 = ROk v s'" "kept ?s1 s'" by auto
  then have st: "static sys_two_effects = static ?s1"
    by (simp add: sys_two_effects_def effect_def kept_def settled_def)
  have "static ?s1 0 = static sys_effect_a 0" by (simp add: static_def eff_def)
  then show "static sys_two_effects 0 = (True, False, None, reads_a)"
    using st sys_effect_a_static by simp
  show "static sys_two_effects 1 = (True, True, None, reads_a)"
    using st by (simp add: static_def eff_def)
qed

lemma sys_two_effects_quiet: "quiet 1 sys_two_effects 0" "quiet 1 sys_two_effects 1"
  using sys_two_effects_static reads_a_within by (simp_all add: quiet_def static_def)

lemma sys_two_effects_expected:
  "expected_call sys_two_effects 0 = [RanBody 0]" "expected_call sys_two_effects 1 = [RanBody 1]"
  using sys_two_effects_static by (simp_all add: expected_call_def static_def)




text \<open>
  C8, as stated, fails: after one read of \<^verbatim>\<open>c.value\<close> for \<^verbatim>\<open>c = computed(() => obj.a)\<close>, the
  runner of \<^verbatim>\<open>c\<close> is a recorded subscriber of \<^verbatim>\<open>obj.a\<close> and not the running effect, yet
  \<^verbatim>\<open>trigger\<close> for \<^verbatim>\<open>obj.a\<close> does not re-run it: it calls its scheduler.
\<close>

theorem trigger_skips_computed_getter:
  "targetMap sys_computed_read (Plain 0, ''a'') = [0]
   \<and> currentEffect sys_computed_read = None
   \<and> calls sys_computed_read = [RanBody 0]
   \<and> outcome_of (run 10 (Trigger (Plain 0) ''a'') sys_computed_read) = Some (Inr UndefinedV)
   \<and> calls (state_of (run 10 (Trigger (Plain 0) ''a'') sys_computed_read))
       = [RanBody 0, RanScheduler 0]"
  by (intro conjI; code_simp)

lemma sys_computed_read_facts:
  "targetMap sys_computed_read (Plain 0, ''a'') = [0]"
  "trigger_order sys_computed_read (Plain 0) ''a'' = [0]"
  "targetMap sys_computed_read (ComputedWrapper 0, ''value'') = []"
  "computeds sys_computed_read 0 = Some \<lparr>dirty = False, cached = UndefinedV, runner = 0\<rparr>"
  "calls sys_computed_read = [RanBody 0]"
  "(case scheduler (eff sys_computed_read 0) of
      Some (ComputedScheduler c) \<Rightarrow> c = 0 | _ \<Rightarrow> False)"
  by code_simp+

lemma sys_computed_read_scheduler:
  "scheduler (eff sys_computed_read 0) = Some (ComputedScheduler 0)"
  using sys_computed_read_facts(6) by (auto split: option.splits sched.splits)

text \<open>
  C8, amended. \<^verbatim>\<open>trigger\<close> calls the recorded subscribers of the key, all of them except
  the running effect, each once (the dependency set has no duplicates), every subscriber
  flagged \<^verbatim>\<open>computed\<close> before every plain one. When the subscribers are quiet, the call
  returns and the calls made are, in this order, for each subscriber: its scheduler if it
  has one, and otherwise the effect function, which enters the body if the effect is
  active. The subscriber that \<^verbatim>\<open>computed\<close> creates has a scheduler: its getter is not run
  again, and \<^verbatim>\<open>dirty\<close> is set for it and for no other. (Such a subscriber is quiet when
  the wrapper has no subscriber of its own, as in every state that calls reach from a
  fresh system: \<open>wrappers_stay_free\<close>.)
\<close>

theorem trigger_semantics:
  "set (trigger_order s target key)
     = set (targetMap s (target, key)) - {e. currentEffect s = Some e}
   \<and> (distinct (targetMap s (target, key)) \<longrightarrow> distinct (trigger_order s target key))
   \<and> (\<exists>cs ps. trigger_order s target key = cs @ ps
         \<and> (\<forall>e\<in>set cs. is_computed (eff s e)) \<and> (\<forall>e\<in>set ps. \<not> is_computed (eff s e)))
   \<and> ((\<forall>e\<in>set (trigger_order s target key). quiet d s e) \<and> d + 2 < n \<longrightarrow>
        (\<exists>s'. run n (Trigger target key) s = ROk UndefinedV s'
             \<and> calls s' = calls s @ concat (map (expected_call s) (trigger_order s target key))
             \<and> (\<forall>c. computeds s' c =
                    (if \<exists>e\<in>set (trigger_order s target key).
                          scheduler (eff s e) = Some (ComputedScheduler c)
                     then map_option (\<lambda>cl. cl\<lparr>dirty := True\<rparr>) (computeds s c)
                     else computeds s c))))"
proof (intro conjI impI)
  show "set (trigger_order s target key)
     = set (targetMap s (target, key)) - {e. currentEffect s = Some e}"
    by (rule trigger_order_set)
  show "distinct (trigger_order s target key)" if "distinct (targetMap s (target, key))"
    using that by (rule trigger_order_distinct)
  show "\<exists>cs ps. trigger_order s target key = cs @ ps
         \<and> (\<forall>e\<in>set cs. is_computed (eff s e)) \<and> (\<forall>e\<in>set ps. \<not> is_computed (eff s e))"
    by (rule trigger_order_split)
next
  assume h: "(\<forall>e\<in>set (trigger_order s target key). quiet d s e) \<and> d + 2 < n"
  then have q: "\<forall>e\<in>set (trigger_order s target key). quiet d s e" and n: "d + 2 < n"
    by simp_all
  from trigger_quiet [OF q n] obtain s' where
    t: "run n (Trigger target key) s = ROk UndefinedV s'"
       "calls s' = calls s @ concat (map (expected_call s) (trigger_order s target key))"
       "computeds s' = fold (mark_dirty s) (trigger_order s target key) (computeds s)"
    by blast
  have "\<forall>c. computeds s' c =
                    (if \<exists>e\<in>set (trigger_order s target key).
                          scheduler (eff s e) = Some (ComputedScheduler c)
                     then map_option (\<lambda>cl. cl\<lparr>dirty := True\<rparr>) (computeds s c)
                     else computeds s c)"
    unfolding t(3) fold_mark_dirty by simp
  with t(1,2) show "\<exists>s'. run n (Trigger target key) s = ROk UndefinedV s'
             \<and> calls s' = calls s @ concat (map (expected_call s) (trigger_order s target key))
             \<and> (\<forall>c. computeds s' c =
                    (if \<exists>e\<in>set (trigger_order s target key).
                          scheduler (eff s e) = Some (ComputedScheduler c)
                     then map_option (\<lambda>cl. cl\<lparr>dirty := True\<rparr>) (computeds s c)
                     else computeds s c))"
    by blast
qed

theorem trigger_semantics_witness:
  "targetMap sys_two_effects (Plain 0, ''a'') = [0, 1]
   \<and> distinct (targetMap sys_two_effects (Plain 0, ''a''))
   \<and> trigger_order sys_two_effects (Plain 0) ''a'' = [1, 0]
   \<and> quiet 1 sys_two_effects 1 \<and> quiet 1 sys_two_effects 0
   \<and> distinct (trigger_order sys_two_effects (Plain 0) ''a'')
   \<and> (\<exists>s'. run 10 (Trigger (Plain 0) ''a'') sys_two_effects = ROk UndefinedV s'
           \<and> calls s' = calls sys_two_effects @ [RanBody 1, RanBody 0])
   \<and> trigger_order sys_computed_read (Plain 0) ''a'' = [0]
   \<and> scheduler (eff sys_computed_read 0) = Some (ComputedScheduler 0)
   \<and> quiet 1 sys_computed_read 0
   \<and> computeds sys_computed_read 0 = Some \<lparr>dirty = False, cached = UndefinedV, runner = 0\<rparr>
   \<and> (\<exists>s'. run 10 (Trigger (Plain 0) ''a'') sys_computed_read = ROk UndefinedV s'
           \<and> calls s' = calls sys_computed_read @ [RanScheduler 0]
           \<and> computeds s' 0 = Some \<lparr>dirty = True, cached = UndefinedV, runner = 0\<rparr>)"
proof -
  have q: "\<forall>e\<in>set (trigger_order sys_two_effects (Plain 0) ''a''). quiet 1 sys_two_effects e"
    using sys_two_effects_quiet by (simp add: sys_two_effects_facts)
  have n: "(1::nat) + 2 < 10" by simp
  have d: "distinct (targetMap sys_two_effects (Plain 0, ''a''))"
    by (simp add: sys_two_effects_facts)
  from trigger_semantics [of sys_two_effects "Plain 0" "''a''" 1 10] q n d
  have 1: "distinct (trigger_order sys_two_effects (Plain 0) ''a'')
        \<and> (\<exists>s'. run 10 (Trigger (Plain 0) ''a'') sys_two_effects = ROk UndefinedV s'
             \<and> calls s' = calls sys_two_effects
                  @ concat (map (expected_call sys_two_effects)
                              (trigger_order sys_two_effects (Plain 0) ''a'')))"
    by blast
  have qc: "quiet 1 sys_computed_read 0"
    by (simp add: quiet_def sys_computed_read_scheduler sys_computed_read_facts)
  then have q': "\<forall>e\<in>set (trigger_order sys_computed_read (Plain 0) ''a'').
                  quiet 1 sys_computed_read e"
    by (simp add: sys_computed_read_facts)
  from trigger_semantics [of sys_computed_read "Plain 0" "''a''" 1 10] q' n
  obtain s' where
    2: "run 10 (Trigger (Plain 0) ''a'') sys_computed_read = ROk UndefinedV s'"
       "calls s' = calls sys_computed_read
          @ concat (map (expected_call sys_computed_read)
                      (trigger_order sys_computed_read (Plain 0) ''a''))"
       "\<forall>c. computeds s' c =
               (if \<exists>e\<in>set (trigger_order sys_computed_read (Plain 0) ''a'').
                     scheduler (eff sys_computed_read e) = Some (ComputedScheduler c)
                then map_option (\<lambda>cl. cl\<lparr>dirty := True\<rparr>) (computeds sys_computed_read c)
                else computeds sys_computed_read c)"
    by blast
  have "calls s' = calls sys_computed_read @ [RanScheduler 0]"
    using 2(2) by (simp add: sys_computed_read_facts(2) expected_call_def
                     sys_computed_read_scheduler)
  moreover have "computeds s' 0 = Some \<lparr>dirty = True, cached = UndefinedV, runner = 0\<rparr>"
    using 2(3) by (simp add: sys_computed_read_facts(2,4) sys_computed_read_scheduler)
  ultimately have 3: "\<exists>s'. run 10 (Trigger (Plain 0) ''a'') sys_computed_read = ROk UndefinedV s'
           \<and> calls s' = calls sys_computed_read @ [RanScheduler 0]
           \<and> computeds s' 0 = Some \<lparr>dirty = True, cached = UndefinedV, runner = 0\<rparr>"
    using 2(1) by blast
  from 1 3 show ?thesis using sys_two_effects_quiet d sys_two_effects_expected qc
    by (simp add: sys_two_effects_facts sys_computed_read_facts(2,4)
          sys_computed_read_scheduler)
qed

text \<open>
  C10, as stated, fails for \<^verbatim>\<open>computed\<close>: when the getter itself throws, here a RangeError,
  the read of \<^verbatim>\<open>.value\<close> throws that error and not a TypeError.
\<close>

theorem computed_getter_error_propagates:
  "outcome_of (run 10 (ComputedGet 0) sys_computed_throws) = Some (Inl RangeError)"
  by code_simp

lemma computed_get_never_returns: "run n (ComputedGet c) s \<noteq> ROk v s'"
proof (cases n)
  case 0
  then show ?thesis by simp
next
  case (Suc m)
  show ?thesis
  proof (cases "computeds s c")
    case None
    then show ?thesis by (simp add: Suc computed_get_def)
  next
    case (Some cl)
    let ?first = "if dirty cl
                    then rbind (run m (CallEffect (runner cl)) s) (\<lambda>v s1.
                           ROk v (s1\<lparr>computeds :=
                                      (computeds s1)(c \<mapsto> \<lparr>dirty = False, cached = v,
                                                            runner = runner cl\<rparr>)\<rparr>))
                    else ROk (cached cl) s"
    have "rbind ?first (\<lambda>v s2. RThrow TypeError s2) \<noteq> ROk v s'"
      by (cases ?first) simp_all
    then show ?thesis using Some
      by (simp add: Suc computed_get_def object_prototype_methods_def)
  qed
qed

text \<open>
  C10, amended. A read of \<^verbatim>\<open>.value\<close> on the object returned by \<^verbatim>\<open>ref\<close> throws a TypeError.
  A read of \<^verbatim>\<open>.value\<close> on the object returned by \<^verbatim>\<open>computed\<close> never returns a value. When
  the getter does not have to run (\<^verbatim>\<open>dirty\<close> is not set) it throws a TypeError and changes
  nothing. When the getter has to run and the call of the runner returns, it throws a
  TypeError after \<^verbatim>\<open>value\<close> and \<^verbatim>\<open>dirty\<close> were assigned; when the call of the runner throws,
  it throws that same error, in the state the runner left. The read does end with a
  TypeError when the effect of the getter is stopped or the getter only reads.
\<close>

theorem value_getters_throw:
  "ref_get r s = RThrow TypeError s
   \<and> run n (ComputedGet c) s \<noteq> ROk v s'
   \<and> (computeds s c = Some cl \<and> \<not> dirty cl \<longrightarrow>
        run (Suc n) (ComputedGet c) s = RThrow TypeError s)
   \<and> (computeds s c = Some cl \<and> dirty cl \<and> run n (CallEffect (runner cl)) s = ROk w s1 \<longrightarrow>
        run (Suc n) (ComputedGet c) s =
          RThrow TypeError
            (s1\<lparr>computeds := (computeds s1)(c \<mapsto> \<lparr>dirty = False, cached = w,
                                                  runner = runner cl\<rparr>)\<rparr>))
   \<and> (computeds s c = Some cl \<and> dirty cl \<and> run n (CallEffect (runner cl)) s = RThrow x s1 \<longrightarrow>
        run (Suc n) (ComputedGet c) s = RThrow x s1)
   \<and> (computeds s c = Some cl \<and> 1 < n
        \<and> (dirty cl \<and> active (eff s (runner cl)) \<longrightarrow>
              reads_within d (fn (eff s (runner cl))) \<and> d + 2 < n) \<longrightarrow>
      (\<exists>s''. run n (ComputedGet c) s = RThrow TypeError s''))"
proof (intro conjI impI)
  show "ref_get r s = RThrow TypeError s"
    by (simp add: ref_get_def object_prototype_methods_def)
  show "run n (ComputedGet c) s \<noteq> ROk v s'" by (rule computed_get_never_returns)
  show "run (Suc n) (ComputedGet c) s = RThrow TypeError s"
    if "computeds s c = Some cl \<and> \<not> dirty cl"
    using that by (simp add: computed_get_def object_prototype_methods_def)
  show "run (Suc n) (ComputedGet c) s =
          RThrow TypeError
            (s1\<lparr>computeds := (computeds s1)(c \<mapsto> \<lparr>dirty = False, cached = w,
                                                  runner = runner cl\<rparr>)\<rparr>)"
    if "computeds s c = Some cl \<and> dirty cl \<and> run n (CallEffect (runner cl)) s = ROk w s1"
    using that by (simp add: computed_get_def object_prototype_methods_def)
  show "run (Suc n) (ComputedGet c) s = RThrow x s1"
    if "computeds s c = Some cl \<and> dirty cl \<and> run n (CallEffect (runner cl)) s = RThrow x s1"
    using that by (simp add: computed_get_def)
next
  assume h: "computeds s c = Some cl \<and> 1 < n
        \<and> (dirty cl \<and> active (eff s (runner cl)) \<longrightarrow>
              reads_within d (fn (eff s (runner cl))) \<and> d + 2 < n)"
  then obtain m where n: "n = Suc m" by (cases n) auto
  have nm: "\<not> has_method (ComputedWrapper c) ''track''"
    by (simp add: object_prototype_methods_def)
  show "\<exists>s''. run n (ComputedGet c) s = RThrow TypeError s''"
  proof (cases "dirty cl")
    case False
    then show ?thesis using h nm by (simp add: n computed_get_def)
  next
    case True
    show ?thesis
    proof (cases "active (eff s (runner cl))")
      case act: True
      with True h have "reads_within d (fn (eff s (runner cl)))" "Suc d < m"
        by (auto simp: n)
      from call_effect_quiet [OF act this] obtain w s1 where
        "run m (CallEffect (runner cl)) s = ROk w s1" by auto
      then show ?thesis using h True nm by (simp add: n computed_get_def)
    next
      case inact: False
      have "0 < m" using h by (simp add: n)
      from call_effect_inactive [OF inact this] show ?thesis
        using h True nm by (simp add: n computed_get_def)
    qed
  qed
qed

lemma sys_computed_throws_facts:
  "computeds sys_computed_throws 0 = Some \<lparr>dirty = True, cached = UndefinedV, runner = 0\<rparr>"
  "outcome_of (run 9 (CallEffect 0) sys_computed_throws) = Some (Inl RangeError)"
  by code_simp+

theorem value_getters_throw_witness:
  "computeds sys_computed_a 0 = Some \<lparr>dirty = True, cached = UndefinedV, runner = 0\<rparr>
   \<and> active (eff sys_computed_a 0)
   \<and> reads_within 1 (fn (eff sys_computed_a 0))
   \<and> ref_get 0 (ref 0 (NumV 1) new_system) = RThrow TypeError (ref 0 (NumV 1) new_system)
   \<and> (\<exists>s''. run 10 (ComputedGet 0) sys_computed_a = RThrow TypeError s'')
   \<and> (\<exists>w s1. run 9 (CallEffect 0) sys_computed_a = ROk w s1
         \<and> run 10 (ComputedGet 0) sys_computed_a =
             RThrow TypeError
               (s1\<lparr>computeds := (computeds s1)(0 \<mapsto> \<lparr>dirty = False, cached = w, runner = 0\<rparr>)\<rparr>))
   \<and> computeds sys_computed_read 0 = Some \<lparr>dirty = False, cached = UndefinedV, runner = 0\<rparr>
   \<and> run 10 (ComputedGet 0) sys_computed_read = RThrow TypeError sys_computed_read
   \<and> computeds sys_computed_throws 0 = Some \<lparr>dirty = True, cached = UndefinedV, runner = 0\<rparr>
   \<and> (\<exists>s1. run 9 (CallEffect 0) sys_computed_throws = RThrow RangeError s1
         \<and> run 10 (ComputedGet 0) sys_computed_throws = RThrow RangeError s1)"
proof -
  let ?cl = "\<lparr>dirty = True, cached = UndefinedV, runner = 0\<rparr>"
  let ?cl' = "\<lparr>dirty = False, cached = UndefinedV, runner = 0\<rparr>"
  have c: "computeds sys_computed_a 0 = Some ?cl"
    by (simp add: sys_computed_a_def computed_def effect_def)
  have f: "fn (eff sys_computed_a 0) = reads_a" "active (eff sys_computed_a 0)"
    by (simp_all add: sys_computed_a_def computed_def effect_def eff_def)
  have r: "reads_within 1 (fn (eff sys_computed_a 0))" using reads_a_within by (simp add: f)
  from value_getters_throw [where r = 0 and s = "ref 0 (NumV 1) new_system"]
  have 1: "ref_get 0 (ref 0 (NumV 1) new_system) = RThrow TypeError (ref 0 (NumV 1) new_system)"
    by blast
  from value_getters_throw [where s = sys_computed_a and n = 10 and c = 0
                                        and cl = ?cl and d = 1] c f r
  have 2: "\<exists>s''. run 10 (ComputedGet 0) sys_computed_a = RThrow TypeError s''"
    by simp
  from call_effect_quiet [OF f(2) r, of 9] obtain w s1 where
    ok: "run 9 (CallEffect 0) sys_computed_a = ROk w s1" by auto
  from value_getters_throw [where s = sys_computed_a and n = 9 and c = 0
                                        and cl = ?cl and w = w and ?s1.0 = s1] c ok
  have 3: "\<exists>w s1. run 9 (CallEffect 0) sys_computed_a = ROk w s1
         \<and> run 10 (ComputedGet 0) sys_computed_a =
             RThrow TypeError
               (s1\<lparr>computeds := (computeds s1)(0 \<mapsto> \<lparr>dirty = False, cached = w, runner = 0\<rparr>)\<rparr>)"
    using ok by auto
  from value_getters_throw [where s = sys_computed_read and n = 9 and c = 0 and cl = ?cl']
    sys_computed_read_facts(4)
  have 4: "run 10 (ComputedGet 0) sys_computed_read = RThrow TypeError sys_computed_read"
    by simp
  obtain s2 where th: "run 9 (CallEffect 0) sys_computed_throws = RThrow RangeError s2"
    using sys_computed_throws_facts(2)
    by (cases "run 9 (CallEffect 0) sys_computed_throws") auto
  from value_getters_throw [where s = sys_computed_throws and n = 9 and c = 0
                                        and cl = ?cl and x = RangeError and ?s1.0 = s2]
    sys_computed_throws_facts(1) th
  have 5: "\<exists>s1. run 9 (CallEffect 0) sys_computed_throws = RThrow RangeError s1
         \<and> run 10 (ComputedGet 0) sys_computed_throws = RThrow RangeError s1"
    by auto
  from 1 2 3 4 5 show ?thesis
    using c f r sys_computed_read_facts(4) sys_computed_throws_facts(1) by simp
qed

section \<open>Properties of the renderer\<close>

text \<open>
  Evaluation of the renderer on concrete trees: the definitions are unfolded, and of a
  sequence of two steps the first is evaluated before the second is looked at.
\<close>

lemma show_int_0: "show_int 0 = ''0''"
  by code_simp

lemma dbind_weak_cong: "r = r' \<Longrightarrow> dbind r f = dbind r' f"
  by simp

lemma with_handle_weak_cong: "r = r' \<Longrightarrow> with_handle r f = with_handle r' f"
  by simp

lemma each_weak_cong: "xs = xs' \<Longrightarrow> s = s' \<Longrightarrow> each f xs s = each f xs' s'"
  by simp

lemma fold_weak_cong: "xs = xs' \<Longrightarrow> s = s' \<Longrightarrow> fold f xs s = fold f xs' s'"
  by simp

lemma map_option_weak_cong: "x = x' \<Longrightarrow> map_option f x = map_option f x'"
  by simp

lemmas dom_congs = dbind_weak_cong with_handle_weak_cong each_weak_cong fold_weak_cong
  map_option_weak_cong let_weak_cong prod.case_cong_weak

lemmas dom_defs = strict_eq_def get_prop_def vkey_def isText_def isComponent_def emit_def
  the_node_def new_node_def createElementNode_def createTextNode_def
  createDocumentFragment_def detach_def inserted_def adopt_def appendChild_def removeChild_def
  replaceChild_def setTextContent_def to_lower_def eventType_def key_in_def on_element_def
  remove_old_prop_def set_new_prop_def updateElement_def with_handle_def first_child_def
  child_element_def createComponent_def createElement_def isDifferentNodeType_def unmount_def
  nth_opt_def update_child_def updateChildren_def updateComponent_def patch_def
  widget_def empty_target_def keyed_def list_old_def list_new_def items_old_def items_new_def
  widget_node_def nan_node_def mounted_def calls_of_patch_def Let_def eval_nat_numeral

subsection \<open>Children with keys\<close>

text \<open>
  C1. The claim: when a list of keyed children is reconciled against a permutation of
  itself, the lookups from keys are built and consulted before positions, every
  existing handle is reused, no node is created or destroyed and only moves are issued.
  \<^verbatim>\<open>updateChildren\<close> does build the two lookups, for the children A (key 1), B (key 2),
  C (key 3) and their permutation C, A, B, and then never reads them: children are
  matched by position. When the three children have different tags, a new node is
  created for each position and put in the place of the old one, and there is no move;
  when they have the same tag, the three text contents are overwritten in place.
\<close>

theorem keyed_reorder_matched_by_position:
  "map (\<lambda>(k, v, i). (k, vid v, i)) (build_key_map 0 (vchildren list_old))
     = [(PNum 1, 11, 0), (PNum 2, 12, 1), (PNum 3, 13, 2)]
   \<and> map (\<lambda>(k, v, i). (k, vid v, i)) (build_key_map 0 (vchildren list_new))
     = [(PNum 3, 21, 0), (PNum 1, 22, 1), (PNum 2, 23, 2)]
   \<and> childNodes (the_node (mounted list_old) 1) = [2, 4, 6]
   \<and> calls_of_patch list_old (Some list_new)
     = Some [CreateElement 8 ''p'', CreateTextNode 9 ''C'', AppendChild 8 9, ReplaceChild 1 8 2,
             CreateElement 10 ''div'', CreateTextNode 11 ''A'', AppendChild 10 11,
             ReplaceChild 1 10 4,
             CreateElement 12 ''span'', CreateTextNode 13 ''B'', AppendChild 12 13,
             ReplaceChild 1 12 6]
   \<and> calls_of_patch items_old (Some items_new)
     = Some [SetTextContent 3 (PStr ''C''), SetTextContent 5 (PStr ''A''),
             SetTextContent 7 (PStr ''B'')]"
  by (simp add: dom_defs show_int_0 show_int_1 cong: dom_congs)

subsection \<open>Unmounting and detaching\<close>

text \<open>
  C9. The claim: on every path that discards an old subtree, the removal path and the
  replacement path alike, the unmount processing of a component runs before its node is
  detached or replaced. For a mounted \<^verbatim>\<open>Widget\<close> component (node 1 in the container 0),
  the removal path \<^verbatim>\<open>patch(container, old, null)\<close> unmounts and then removes the node, but
  the replacement path \<^verbatim>\<open>patch(container, old, h('span'))\<close> has replaced node 1 by the
  new node 3 before \<^verbatim>\<open>beforeUnmount\<close> and \<^verbatim>\<open>componentWillUnmount\<close> are called. The
  replacement of a child in \<^verbatim>\<open>updateChildren\<close> unmounts first, as the removal path does.
\<close>

theorem replace_detaches_before_unmount:
  "log (mounted widget_node)
     = [Hook ''beforeMount'' 0, Render 0, CreateElement 1 ''div'', CreateTextNode 2 ''0'',
        AppendChild 1 2, Hook ''afterMount'' 0, AppendChild 0 1]
   \<and> calls_of_patch widget_node (Some (VNode 2 ''span'' [] []))
     = Some [CreateElement 3 ''span'', ReplaceChild 0 3 1,
             Hook ''beforeUnmount'' 0, ComponentWillUnmount 0]
   \<and> calls_of_patch widget_node None
     = Some [Hook ''beforeUnmount'' 0, ComponentWillUnmount 0, RemoveChild 0 1]
   \<and> calls_of_patch (VNode 5 ''div'' [] [CNode widget_node])
        (Some (VNode 6 ''div'' [] [CPrim (PStr ''x'')]))
     = Some [CreateTextNode 4 ''x'', Hook ''beforeUnmount'' 0, ComponentWillUnmount 0,
             ReplaceChild 1 4 2]"
  by (simp add: dom_defs show_int_0 show_int_1 cong: dom_congs)

subsection \<open>Reconciling a tree against itself\<close>

text \<open>
  C5, as stated, fails: for two kinds of trees \<^verbatim>\<open>patch(container, T, T)\<close> changes the
  render target. A property
  whose value is \<^verbatim>\<open>NaN\<close> is written again, since \<^verbatim>\<open>oldProps[key] !== newProps[key]\<close> holds
  for it. A component is rendered again, and what its \<^verbatim>\<open>render\<close> returns this time is
  reconciled against what it returned before.
\<close>

theorem nan_prop_written_again:
  "calls_of_patch nan_node (Some nan_node) = Some [SetAttribute 1 ''data-x'' PNaN]"
  by (simp add: dom_defs show_int_0 show_int_1 cong: dom_congs)

lemma component_rendered_again:
  "calls_of_patch widget_node (Some widget_node)
     = Some [Hook ''beforeUpdate'' 0, Render 0, CreateTextNode 3 ''1'', AppendChild 1 3,
             Hook ''afterUpdate'' 0]"
  by (simp add: dom_defs show_int_0 show_int_1 cong: dom_congs)

lemma quietly_refl [simp]: "quietly s s"
  by (auto simp: quietly_def intro: exI [of _ "[]"])

lemma quietly_trans: "quietly s s1 \<Longrightarrow> quietly s1 s2 \<Longrightarrow> quietly s s2"
  unfolding quietly_def
proof (elim exE conjE)
  fix e1 e2
  assume "s1 = s\<lparr>log := log s @ e1\<rparr>" "s2 = s1\<lparr>log := log s1 @ e2\<rparr>"
    "\<forall>x\<in>set e1. \<not> is_mutation x" "\<forall>x\<in>set e2. \<not> is_mutation x"
  then show "\<exists>extra. s2 = s\<lparr>log := log s @ extra\<rparr> \<and> (\<forall>x\<in>set extra. \<not> is_mutation x)"
    by (intro exI [of _ "e1 @ e2"]) auto
qed

lemma quietly_emit: "\<not> is_mutation x \<Longrightarrow> quietly s (emit x s)"
  by (auto simp: quietly_def emit_def intro: exI [of _ "[x]"])

lemma quiet_result_bind:
  assumes "quiet_result b s r"
    and "\<And>v s1. r = DOk v s1 \<Longrightarrow> quiet_result b s1 (f v s1)"
  shows "quiet_result b s (dbind r f)"
proof (cases r)
  case (DOk v s1)
  with assms have q: "quietly s s1" "quiet_result b s1 (f v s1)"
    by (auto simp: quiet_result_def)
  then show ?thesis using DOk
    by (cases "f v s1") (auto simp: quiet_result_def intro: quietly_trans)
qed (use assms in \<open>auto simp: quiet_result_def\<close>)

lemma each_quiet:
  assumes "\<And>x s. x \<in> set xs \<Longrightarrow> quiet_result b s (f x s)"
  shows "quiet_result b s (each f xs s)"
  using assms
proof (induction xs arbitrary: s)
  case Nil
  show ?case by (simp add: quiet_result_def)
next
  case (Cons x xs)
  have 1: "quiet_result b s (f x s)" by (rule Cons.prems) simp
  have 2: "\<And>s1. quiet_result b s1 (each f xs s1)"
    by (rule Cons.IH) (simp add: Cons.prems)
  show ?case
    unfolding each.simps
    by (rule quiet_result_bind [OF 1]) (rule 2)
qed

lemma get_prop_in: "key \<in> fst ` set ps \<Longrightarrow> get_prop ps key \<in> snd ` set ps"
proof -
  assume "key \<in> fst ` set ps"
  then obtain v where "map_of ps key = Some v"
    by (metis domD dom_map_of_conv_image_fst)
  moreover from this have "(key, v) \<in> set ps" by (rule map_of_SomeD)
  ultimately show ?thesis by (force simp: get_prop_def)
qed

lemma each_skip: "(\<And>x s. x \<in> set xs \<Longrightarrow> f x s = DOk () s) \<Longrightarrow> each f xs s = DOk () s"
  by (induction xs arbitrary: s) simp_all

lemma updateElement_same:
  assumes "PNaN \<notin> snd ` set ps"
  shows "quiet_result b s (updateElement element ps ps s)"
proof -
  have 1: "each (remove_old_prop element ps ps) (map fst ps) s = DOk () s"
    by (rule each_skip) (auto simp: remove_old_prop_def key_in_def)
  have 2: "each (set_new_prop element ps ps) (map fst ps) s = DOk () s"
  proof (rule each_skip)
    fix x s'
    assume "x \<in> set (map fst ps)"
    then have "get_prop ps x \<in> snd ` set ps" by (intro get_prop_in) simp
    with assms have "get_prop ps x \<noteq> PNaN" by metis
    then show "set_new_prop element ps ps x s' = DOk () s'"
      by (simp add: set_new_prop_def strict_eq_def)
  qed
  show ?thesis
    by (auto simp: updateElement_def 1 2 quiet_result_def quietly_emit split: pv.splits)
qed

lemma depth_child: "CNode a \<in> set cs \<Longrightarrow> depth a < depth (VNode i t ps cs)"
proof -
  have "\<And>m. CNode a \<in> set cs \<Longrightarrow> depth a \<le> fold max (map child_depth cs) m"
  proof (induction cs)
    case Nil
    then show ?case by simp
  next
    case (Cons c cs)
    have mono: "\<And>xs (m::nat) k. m \<le> k \<Longrightarrow> fold max xs m \<le> fold max xs k"
    proof -
      fix xs show "\<And>(m::nat) k. m \<le> k \<Longrightarrow> fold max xs m \<le> fold max xs k"
        by (induction xs) (auto intro!: max.mono)
    qed
    have ge: "\<And>xs (m::nat). m \<le> fold max xs m"
    proof -
      fix xs show "\<And>(m::nat). m \<le> fold max xs m"
      proof (induction xs)
        case Nil show ?case by simp
      next
        case (Cons x xs)
        have "m \<le> max x m" by simp
        also have "\<dots> \<le> fold max xs (max x m)" by (rule Cons)
        finally show ?case by simp
      qed
    qed
    show ?case
    proof (cases "c = CNode a")
      case True
      have "depth a \<le> max (depth a) m" by simp
      also have "\<dots> \<le> fold max (map child_depth cs) (max (depth a) m)" by (rule ge)
      finally show ?thesis using True by simp
    next
      case False
      with Cons.prems have "CNode a \<in> set cs" by simp
      from Cons.IH [OF this] show ?thesis by simp
    qed
  qed
  then show "CNode a \<in> set cs \<Longrightarrow> depth a < depth (VNode i t ps cs)"
    by (simp add: less_Suc_eq_le)
qed

lemma patch_same_quiet:
  "plain T \<Longrightarrow> quiet_result (n < depth T) s (drun n (DPatch container (Some T) (Some T)) s)"
proof (induction n arbitrary: T container s)
  case 0
  obtain i t ps cs where T: "T = VNode i t ps cs" by (cases T)
  show ?case by (simp add: quiet_result_def T)
next
  case (Suc n)
  obtain i t ps cs where T: "T = VNode i t ps cs" by (cases T)
  from Suc.prems have pl: "t \<noteq> ''COMPONENT''" "PNaN \<notin> snd ` set ps"
    "t = ''TEXT'' \<longrightarrow> take 1 cs \<noteq> [CPrim PNaN]" "\<forall>c\<in>set cs. plain_child c"
    by (simp_all add: T)
  have nd: "\<not> isDifferentNodeType T T"
    using pl(1) by (simp add: isDifferentNodeType_def isComponent_def T)
  have nc: "\<not> isComponent T" using pl(1) by (simp add: isComponent_def T)
  show ?case
  proof (cases "isText T")
    case True
    have "child_strict_eq (first_child T) (first_child T)"
    proof (cases cs)
      case Nil
      then show ?thesis by (simp add: first_child_def T strict_eq_def)
    next
      case (Cons c cs')
      then show ?thesis using pl(3) True
        by (cases c) (auto simp: first_child_def T strict_eq_def isText_def)
    qed
    then show ?thesis using True nd by (simp add: patch_def quiet_result_def)
  next
    case False
    let ?el = "velement s (vid T)"
    let ?B = "Suc n < depth T"
    have s1: "s\<lparr>velement := (velement s)(vid T := ?el)\<rparr> = s" by simp
    have ue: "quiet_result ?B s (updateElement ?el (vprops T) (vprops T) s)"
      using pl(2) by (intro updateElement_same) (simp add: T)
    have uc: "\<And>s2. quiet_result ?B s2 (updateChildren (drun n) ?el (vchildren T) (vchildren T) s2)"
    proof -
      fix s2
      show "quiet_result ?B s2 (updateChildren (drun n) ?el (vchildren T) (vchildren T) s2)"
      proof (cases ?el)
        case None
        then show ?thesis by (simp add: updateChildren_def quiet_result_def)
      next
        case (Some el)
        have "quiet_result ?B s2
                (each (\<lambda>i s1. update_child (drun n) el (nth_opt cs i) (nth_opt cs i)
                                 (nth_opt (childNodes (the_node s2 el)) i) s1) [0..<length cs] s2)"
        proof (rule each_quiet)
          fix x s3
          assume "x \<in> set [0..<length cs]"
          then have x: "x < length cs" by simp
          let ?c = "cs ! x"
          have cin: "?c \<in> set cs" using x by simp
          show "quiet_result ?B s3 (update_child (drun n) el (nth_opt cs x) (nth_opt cs x)
                                 (nth_opt (childNodes (the_node s2 el)) x) s3)"
          proof (cases ?c)
            case (CNode a)
            have "plain a" using pl(4) cin CNode by force
            from Suc.IH [OF this] have
              ih: "quiet_result (n < depth a) s3 (drun n (DPatch (Some el) (Some a) (Some a)) s3)" .
            have "CNode a \<in> set cs" using cin CNode by simp
            then have "depth a < depth T" unfolding T by (rule depth_child)
            then have "n < depth a \<Longrightarrow> ?B" by simp
            then have "quiet_result ?B s3 (drun n (DPatch (Some el) (Some a) (Some a)) s3)"
              using ih by (auto simp: quiet_result_def split: dres.splits)
            then have "quiet_result ?B s3
                         (dbind (drun n (DPatch (Some el) (Some a) (Some a)) s3) (\<lambda>_ s1. DOk () s1))"
              by (rule quiet_result_bind) (simp add: quiet_result_def)
            then show ?thesis using x CNode by (simp add: update_child_def nth_opt_def)
          next
            case (CPrim p)
            then show ?thesis using x
              by (cases p) (simp_all add: update_child_def nth_opt_def quiet_result_def strict_eq_def)
          qed
        qed
        then show ?thesis using Some by (simp add: updateChildren_def T)
      qed
    qed
    have "quiet_result ?B s
            (dbind (updateElement ?el (vprops T) (vprops T) s) (\<lambda>_ s2.
             dbind (updateChildren (drun n) ?el (vchildren T) (vchildren T) s2)
               (\<lambda>_ s3. DOk (VTree (Some T)) s3)))"
      by (rule quiet_result_bind [OF ue], rule quiet_result_bind [OF uc])
         (simp add: quiet_result_def)
    then show ?thesis using False nd nc by (simp add: patch_def s1 Let_def)
  qed
qed

text \<open>
  C5, amended. For every plain tree \<open>T\<close> (no Component node, no \<^verbatim>\<open>NaN\<close> among the values
  of properties or as the content of a Text node), in every state of the renderer and
  for every container, \<^verbatim>\<open>patch(container, T, T)\<close> returns or throws in a state that
  differs from the one before only by calls of \<^verbatim>\<open>ref\<close> callbacks: no node is created,
  inserted, replaced or removed and no attribute, property, listener, style or text is
  written. As soon as the bound on the depth of the calls is at least the depth of \<open>T\<close>,
  the call does end.
\<close>

theorem patch_same_plain_tree:
  "plain T \<longrightarrow>
     quiet_result (n < depth T) s (drun n (DPatch container (Some T) (Some T)) s)"
  by (simp add: patch_same_quiet)

theorem patch_same_plain_tree_witness:
  "plain list_old
   \<and> quiet_result False (mounted list_old)
         (drun 10 (DPatch (Some 0) (Some list_old) (Some list_old)) (mounted list_old))"
proof -
  have a: "plain list_old" by code_simp
  have b: "(10 < depth list_old) = False" by code_simp
  from patch_same_plain_tree [where T = list_old and n = 10 and s = "mounted list_old"
      and container = "Some 0"] a b
  show ?thesis by simp
qed

end
